theory Spec2Isabelle
  imports Complex_Main "HOL-Library.AList" "HOL-Library.Product_Lexorder"
begin

section \<open>Journal entry templates: the data model\<close>

text \<open>
  The module \<^verbatim>\<open>account_move_template/models/account_move_template.py\<close> declares two
  models. A line of a template (\<^verbatim>\<open>account.move.template.line\<close>) carries, besides
  references that the computation never reads (account, partner, analytic account,
  taxes, payment term, label, note), the fields below. The selection field
  \<^verbatim>\<open>type\<close> has the two values \<^verbatim>\<open>"computed"\<close> and \<^verbatim>\<open>"input"\<close> and is required; the
  text field \<^verbatim>\<open>python_code\<close> is \<^verbatim>\<open>False\<close> when it was never set, which is \<open>None\<close> here.
\<close>

datatype line_type = Computed | Input

datatype direction = Cr | Dr

record template_line =
  line_id :: nat
  sequence :: int
  type :: line_type
  python_code :: "string option"
  move_line_type :: direction

text \<open>
  A template (\<^verbatim>\<open>account.move.template\<close>) owns its lines. The computation reads two things
  from it: \<^verbatim>\<open>self.company_id.currency_id.rounding\<close> and \<^verbatim>\<open>self.line_ids\<close>. The rows of the
  lines are kept in \<open>line_rows\<close> in no particular order; the line model declares
  \<^verbatim>\<open>_order = "sequence, id"\<close>, so reading \<^verbatim>\<open>line_ids\<close> yields them by sequence, then id.
\<close>

record 'a account_move_template =
  rounding :: 'a
  line_rows :: "template_line list"

definition line_ids :: "'a account_move_template \<Rightarrow> template_line list" where
  "line_ids self = sort_key (\<lambda>l. (sequence l, line_id l)) (line_rows self)"

text \<open>
  The constraint \<^verbatim>\<open>sequence_template_uniq\<close>, \<^verbatim>\<open>unique(template_id, sequence)\<close>: no two
  lines of one template share a sequence.
\<close>

definition sequence_template_uniq :: "'a account_move_template \<Rightarrow> bool" where
  "sequence_template_uniq self = distinct (map sequence (line_rows self))"

section \<open>Dictionaries, exceptions and the two library functions\<close>

text \<open>
  \<^verbatim>\<open>sequence2amount\<close> is a Python dictionary from sequence numbers to amounts: an
  association list without repeated keys, in insertion order. Storing under a key that
  is present replaces the value in place, storing under a new key appends; \<^verbatim>\<open>pop\<close> of
  an absent key raises \<^verbatim>\<open>KeyError\<close>.
\<close>

type_synonym ('k, 'v) dict = "('k \<times> 'v) list"

definition dict_ok :: "('k, 'v) dict \<Rightarrow> bool" where
  "dict_ok d = distinct (map fst d)"

definition keys :: "('k, 'v) dict \<Rightarrow> 'k set" where
  "keys d = fst ` set d"

definition contains :: "'k \<Rightarrow> ('k, 'v) dict \<Rightarrow> bool" where
  "contains k d = (map_of d k \<noteq> None)"

definition setitem :: "'k \<Rightarrow> 'v \<Rightarrow> ('k, 'v) dict \<Rightarrow> ('k, 'v) dict" where
  "setitem k v d = AList.update k v d"

text \<open>
  The exceptions an evaluator can raise, as far as the handlers of
  \<^verbatim>\<open>eval_computed_line\<close> tell them apart: \<open>ValueError\<close> and \<open>SyntaxError\<close> stand for what
  \<^verbatim>\<open>except ValueError\<close> and \<^verbatim>\<open>except SyntaxError\<close> catch, the other two for exceptions that
  neither handler catches.
\<close>

datatype py_exception = ValueError | SyntaxError | ZeroDivisionError | OtherException string

text \<open>
  What a run of the engine can raise. The first four are the \<^verbatim>\<open>UserError\<close>s of
  \<^verbatim>\<open>compute_lines\<close> and \<^verbatim>\<open>eval_computed_line\<close>, told apart by their message; the two
  formula errors carry what the message is formatted with, the sequence and the
  formula text of the line. \<open>KeyError\<close> is what \<^verbatim>\<open>pop\<close> and a subscript raise on an absent
  key, \<open>Uncaught\<close> an exception that nothing handles: one of the evaluator that
  \<^verbatim>\<open>eval_computed_line\<close> has no handler for, or any exception of \<^verbatim>\<open>float_round\<close>; and
  \<open>MissingFormula\<close> is the \<^verbatim>\<open>ValidationError\<close> of \<^verbatim>\<open>check_python_code\<close>.
\<close>

datatype error =
    MissingInputLine
  | ExtraneousInputLine
  | FormulaReferenceError int "string option"
  | FormulaSyntaxError int "string option"
  | KeyError int
  | Uncaught py_exception
  | MissingFormula int

definition pop :: "int \<Rightarrow> (int, 'v) dict \<Rightarrow> error + (int, 'v) dict" where
  "pop k d = (if contains k d then Inr (AList.delete k d) else Inl (KeyError k))"

text \<open>
  \<^verbatim>\<open>safe_eval\<close> and \<^verbatim>\<open>float_round\<close> are imported from \<^verbatim>\<open>odoo.tools\<close>; the engine is
  modelled for any such pair of functions. An evaluator takes the formula text and the
  dictionary of names and either returns an amount or raises. A rounding function takes
  an amount and the rounding precision and either returns an amount or raises.
\<close>

datatype 'a eval_result = Returns 'a | Raises py_exception

type_synonym 'a evaluator = "string option \<Rightarrow> (string, 'a) dict \<Rightarrow> 'a eval_result"

type_synonym 'a rounder = "'a \<Rightarrow> 'a \<Rightarrow> 'a eval_result"

section \<open>Formatting a sequence number\<close>

text \<open>\<^verbatim>\<open>"L%d" % seq\<close>: the letter L, then the decimal digits of the integer, after a minus
  sign when it is negative.\<close>

definition digit_char :: "nat \<Rightarrow> char" where
  "digit_char d = ''0123456789'' ! d"

function string_of_nat :: "nat \<Rightarrow> string" where
  "string_of_nat n =
     (if n < 10 then [digit_char n]
      else string_of_nat (n div 10) @ [digit_char (n mod 10)])"
  by pat_completeness auto
termination
  by (relation "measure id") auto

declare string_of_nat.simps [simp del]

definition string_of_int :: "int \<Rightarrow> string" where
  "string_of_int i =
     (if i < 0 then CHR ''-'' # string_of_nat (nat (- i)) else string_of_nat (nat i))"

definition line_name :: "int \<Rightarrow> string" where
  "line_name seq = CHR ''L'' # string_of_int seq"

text \<open>Reading a string of digits back; it shows that no two numbers share their digits.\<close>

definition digit_value :: "char \<Rightarrow> nat" where
  "digit_value c = of_char c - 48"

definition is_digit :: "char \<Rightarrow> bool" where
  "is_digit c = (c \<in> set ''0123456789'')"

definition nat_of_digits :: "string \<Rightarrow> nat" where
  "nat_of_digits s = foldl (\<lambda>a c. 10 * a + digit_value c) 0 s"

section \<open>The computation engine\<close>

text \<open>
  \<^verbatim>\<open>
  safe_eval_dict = {}
  for seq, amount in sequence2amount.items():
      safe_eval_dict["L%d" % seq] = amount
  \<close>
\<close>

fun build_safe_eval_dict ::
  "(int \<times> 'a) list \<Rightarrow> (string, 'a) dict \<Rightarrow> (string, 'a) dict" where
  "build_safe_eval_dict [] safe_eval_dict = safe_eval_dict"
| "build_safe_eval_dict ((seq, amount) # items) safe_eval_dict =
     build_safe_eval_dict items (setitem (line_name seq) amount safe_eval_dict)"

definition safe_eval_dict_of :: "(int, 'a) dict \<Rightarrow> (string, 'a) dict" where
  "safe_eval_dict_of sequence2amount = build_safe_eval_dict sequence2amount []"

text \<open>
  \<^verbatim>\<open>eval_computed_line(self, line, sequence2amount)\<close> works on the caller's dictionary.
  The model returns what the call raised, if anything, together with the dictionary as
  the call leaves it. The assignment stands after the call of the evaluator inside the
  \<^verbatim>\<open>try\<close>, so it does not happen when the evaluator raises; \<^verbatim>\<open>ValueError\<close> and
  \<^verbatim>\<open>SyntaxError\<close> have handlers, any other exception passes through.
\<close>

definition eval_computed_line ::
  "'a evaluator \<Rightarrow> template_line \<Rightarrow> (int, 'a) dict \<Rightarrow> (error + unit) \<times> (int, 'a) dict" where
  "eval_computed_line safe_eval line sequence2amount =
     (case safe_eval (python_code line) (safe_eval_dict_of sequence2amount) of
        Returns val \<Rightarrow> (Inr (), setitem (sequence line) val sequence2amount)
      | Raises ValueError \<Rightarrow>
          (Inl (FormulaReferenceError (sequence line) (python_code line)), sequence2amount)
      | Raises SyntaxError \<Rightarrow>
          (Inl (FormulaSyntaxError (sequence line) (python_code line)), sequence2amount)
      | Raises exn \<Rightarrow> (Inl (Uncaught exn), sequence2amount))"

text \<open>
  The first loop of \<^verbatim>\<open>compute_lines\<close>, over the input lines: membership is tested on
  \<^verbatim>\<open>sequence2amount\<close>, the sequence is popped from the copy \<^verbatim>\<open>input_sequence2amount\<close>.
  The loop returns the copy as it leaves it.
\<close>

fun pop_input_lines ::
  "template_line list \<Rightarrow> (int, 'a) dict \<Rightarrow> (int, 'a) dict \<Rightarrow> error + (int, 'a) dict" where
  "pop_input_lines [] sequence2amount input_sequence2amount = Inr input_sequence2amount"
| "pop_input_lines (line # lines) sequence2amount input_sequence2amount =
     (if \<not> contains (sequence line) sequence2amount then Inl MissingInputLine
      else case pop (sequence line) input_sequence2amount of
             Inl e \<Rightarrow> Inl e
           | Inr input_sequence2amount' \<Rightarrow>
               pop_input_lines lines sequence2amount input_sequence2amount')"

text \<open>
  The second loop, over the computed lines: evaluate, then overwrite the stored value by
  its rounding. It works on \<^verbatim>\<open>sequence2amount\<close> itself. The call of \<^verbatim>\<open>float_round\<close> stands
  outside any \<^verbatim>\<open>try\<close>: when it raises, the exception leaves \<^verbatim>\<open>compute_lines\<close> as it is,
  and the dictionary holds the value that \<^verbatim>\<open>eval_computed_line\<close> has stored, not rounded.
\<close>

fun eval_computed_lines ::
  "'a evaluator \<Rightarrow> 'a rounder \<Rightarrow> 'a \<Rightarrow> template_line list \<Rightarrow> (int, 'a) dict \<Rightarrow>
     (error + unit) \<times> (int, 'a) dict" where
  "eval_computed_lines safe_eval float_round prec [] sequence2amount =
     (Inr (), sequence2amount)"
| "eval_computed_lines safe_eval float_round prec (line # lines) sequence2amount =
     (case eval_computed_line safe_eval line sequence2amount of
        (Inl e, s) \<Rightarrow> (Inl e, s)
      | (Inr _, s) \<Rightarrow>
          (case map_of s (sequence line) of
             None \<Rightarrow> (Inl (KeyError (sequence line)), s)
           | Some val \<Rightarrow>
               (case float_round val prec of
                  Raises exn \<Rightarrow> (Inl (Uncaught exn), s)
                | Returns rounded \<Rightarrow>
                    eval_computed_lines safe_eval float_round prec lines
                      (setitem (sequence line) rounded s))))"

text \<open>
  \<^verbatim>\<open>self.line_ids.filtered(lambda x: x.type == "input")\<close> and its counterpart for
  \<^verbatim>\<open>"computed"\<close>: filtering keeps the order of \<^verbatim>\<open>line_ids\<close>.
\<close>

definition input_lines :: "'a account_move_template \<Rightarrow> template_line list" where
  "input_lines self = filter (\<lambda>x. type x = Input) (line_ids self)"

definition computed_lines :: "'a account_move_template \<Rightarrow> template_line list" where
  "computed_lines self = filter (\<lambda>x. type x = Computed) (line_ids self)"

text \<open>
  \<^verbatim>\<open>compute_lines(self, sequence2amount)\<close>. The first component of the result is what the
  call raises (\<open>Inl\<close>) or returns (\<open>Inr\<close>); the second is the caller's dictionary
  \<^verbatim>\<open>sequence2amount\<close> after the call. The function returns that very dictionary.
\<close>

definition compute_lines ::
  "'a evaluator \<Rightarrow> 'a rounder \<Rightarrow> 'a account_move_template \<Rightarrow> (int, 'a) dict \<Rightarrow>
     (error + (int, 'a) dict) \<times> (int, 'a) dict" where
  "compute_lines safe_eval float_round self sequence2amount =
     (let prec = rounding self;
          input_sequence2amount = sequence2amount
      in case pop_input_lines (input_lines self) sequence2amount input_sequence2amount of
           Inl e \<Rightarrow> (Inl e, sequence2amount)
         | Inr input_sequence2amount' \<Rightarrow>
             if input_sequence2amount' \<noteq> [] then (Inl ExtraneousInputLine, sequence2amount)
             else (case eval_computed_lines safe_eval float_round prec
                          (computed_lines self) sequence2amount of
                     (Inl e, s) \<Rightarrow> (Inl e, s)
                   | (Inr _, s) \<Rightarrow> (Inr s, s)))"

text \<open>
  \<^verbatim>\<open>check_python_code\<close>, the constraint on \<^verbatim>\<open>type\<close> and \<^verbatim>\<open>python_code\<close> that runs when
  lines are saved: \<^verbatim>\<open>not line.python_code\<close> holds for \<^verbatim>\<open>False\<close> and for the empty string.
\<close>

definition falsy :: "string option \<Rightarrow> bool" where
  "falsy code = (case code of None \<Rightarrow> True | Some s \<Rightarrow> s = [])"

fun check_python_code :: "template_line list \<Rightarrow> error + unit" where
  "check_python_code [] = Inr ()"
| "check_python_code (line # lines) =
     (if type line = Computed \<and> falsy (python_code line)
      then Inl (MissingFormula (sequence line))
      else check_python_code lines)"

section \<open>A formula evaluator and a rounding function to run the engine on\<close>

text \<open>
  Modelled from the spec: the code of \<^verbatim>\<open>safe_eval\<close> and \<^verbatim>\<open>float_round\<close> is not part of
  the module. The spec describes the evaluator as an interpreter of arithmetic
  expressions: a small grammar of \<^verbatim>\<open>+ - * / ( )\<close>, decimal literals and the lookup of bound
  names; a name that is not bound is a value error, a text that does not parse is a
  syntax error. Division by zero raises \<^verbatim>\<open>ZeroDivisionError\<close>, as the host language does.
  Amounts are rational numbers here, and a text outside this grammar does not parse. The
  engine above does not depend on these definitions; they instantiate it where a concrete
  run is evaluated.
\<close>

datatype binop = Add | Sub | Mul | Div

datatype expr = Num rat | Var string | Neg expr | Bin binop expr expr

datatype token = T_num rat | T_name string | T_op binop | T_lpar | T_rpar

datatype pending = NoTok | NumTok nat "nat option" | NameTok string

definition is_letter :: "char \<Rightarrow> bool" where
  "is_letter c = (c \<in> set ''abcdefghijklmnopqrstuvwxyzABCDEFGHIJKLMNOPQRSTUVWXYZ_'')"

fun flush :: "pending \<Rightarrow> token list" where
  "flush NoTok = []"
| "flush (NumTok m None) = [T_num (of_nat m)]"
| "flush (NumTok m (Some k)) = [T_num (of_nat m / 10 ^ k)]"
| "flush (NameTok s) = [T_name s]"

definition separator :: "char \<Rightarrow> token list option" where
  "separator c =
     (if c = CHR '' '' then Some []
      else if c = CHR ''+'' then Some [T_op Add]
      else if c = CHR ''-'' then Some [T_op Sub]
      else if c = CHR ''*'' then Some [T_op Mul]
      else if c = CHR ''/'' then Some [T_op Div]
      else if c = CHR ''('' then Some [T_lpar]
      else if c = CHR '')'' then Some [T_rpar]
      else None)"

fun tokens :: "string \<Rightarrow> pending \<Rightarrow> token list option" where
  "tokens [] p = Some (flush p)"
| "tokens (c # cs) p =
     (if is_digit c then
        (case p of
           NoTok \<Rightarrow> tokens cs (NumTok (digit_value c) None)
         | NumTok m k \<Rightarrow> tokens cs (NumTok (10 * m + digit_value c) (map_option Suc k))
         | NameTok s \<Rightarrow> tokens cs (NameTok (s @ [c])))
      else if is_letter c then
        (case p of
           NoTok \<Rightarrow> tokens cs (NameTok [c])
         | NumTok m k \<Rightarrow> None
         | NameTok s \<Rightarrow> tokens cs (NameTok (s @ [c])))
      else if c = CHR ''.'' then
        (case p of
           NumTok m None \<Rightarrow> tokens cs (NumTok m (Some 0))
         | _ \<Rightarrow> None)
      else
        (case separator c of
           None \<Rightarrow> None
         | Some sep \<Rightarrow> map_option (\<lambda>ts. flush p @ sep @ ts) (tokens cs NoTok)))"

text \<open>Operator precedence parsing with a stack of operators and a stack of operands.\<close>

datatype stack_op = S_bin binop | S_neg | S_lpar

fun prec_of :: "binop \<Rightarrow> nat" where
  "prec_of Add = 1"
| "prec_of Sub = 1"
| "prec_of Mul = 2"
| "prec_of Div = 2"

fun apply_top :: "stack_op \<Rightarrow> expr list \<Rightarrow> expr list option" where
  "apply_top (S_bin b) (r # l # es) = Some (Bin b l r # es)"
| "apply_top S_neg (e # es) = Some (Neg e # es)"
| "apply_top _ _ = None"

fun reduce :: "nat \<Rightarrow> stack_op list \<Rightarrow> expr list \<Rightarrow> (stack_op list \<times> expr list) option" where
  "reduce p [] es = Some ([], es)"
| "reduce p (S_lpar # ops) es = Some (S_lpar # ops, es)"
| "reduce p (S_neg # ops) es =
     (case apply_top S_neg es of None \<Rightarrow> None | Some es' \<Rightarrow> reduce p ops es')"
| "reduce p (S_bin b # ops) es =
     (if p \<le> prec_of b
      then (case apply_top (S_bin b) es of None \<Rightarrow> None | Some es' \<Rightarrow> reduce p ops es')
      else Some (S_bin b # ops, es))"

fun shunt :: "token list \<Rightarrow> bool \<Rightarrow> stack_op list \<Rightarrow> expr list \<Rightarrow> expr option" where
  "shunt [] expecting ops es =
     (if expecting then None
      else (case reduce 0 ops es of Some ([], [e]) \<Rightarrow> Some e | _ \<Rightarrow> None))"
| "shunt (T_num r # ts) expecting ops es =
     (if expecting then shunt ts False ops (Num r # es) else None)"
| "shunt (T_name x # ts) expecting ops es =
     (if expecting then shunt ts False ops (Var x # es) else None)"
| "shunt (T_lpar # ts) expecting ops es =
     (if expecting then shunt ts True (S_lpar # ops) es else None)"
| "shunt (T_rpar # ts) expecting ops es =
     (if expecting then None
      else (case reduce 0 ops es of
              Some (S_lpar # ops', es') \<Rightarrow> shunt ts False ops' es'
            | _ \<Rightarrow> None))"
| "shunt (T_op b # ts) expecting ops es =
     (if expecting then
        (if b = Sub then shunt ts True (S_neg # ops) es
         else if b = Add then shunt ts True ops es
         else None)
      else (case reduce (prec_of b) ops es of
              None \<Rightarrow> None
            | Some (ops', es') \<Rightarrow> shunt ts True (S_bin b # ops') es'))"

definition parse_formula :: "string \<Rightarrow> expr option" where
  "parse_formula s = (case tokens s NoTok of None \<Rightarrow> None | Some ts \<Rightarrow> shunt ts True [] [])"

fun apply_binop :: "binop \<Rightarrow> rat \<Rightarrow> rat \<Rightarrow> rat eval_result" where
  "apply_binop Add a b = Returns (a + b)"
| "apply_binop Sub a b = Returns (a - b)"
| "apply_binop Mul a b = Returns (a * b)"
| "apply_binop Div a b = (if b = 0 then Raises ZeroDivisionError else Returns (a / b))"

fun eval_expr :: "(string, rat) dict \<Rightarrow> expr \<Rightarrow> rat eval_result" where
  "eval_expr names (Num r) = Returns r"
| "eval_expr names (Var x) =
     (case map_of names x of None \<Rightarrow> Raises ValueError | Some v \<Rightarrow> Returns v)"
| "eval_expr names (Neg e) =
     (case eval_expr names e of Raises exn \<Rightarrow> Raises exn | Returns v \<Rightarrow> Returns (- v))"
| "eval_expr names (Bin b l r) =
     (case eval_expr names l of
        Raises exn \<Rightarrow> Raises exn
      | Returns a \<Rightarrow>
          (case eval_expr names r of
             Raises exn \<Rightarrow> Raises exn
           | Returns c \<Rightarrow> apply_binop b a c))"

text \<open>
  Modelled from the spec: the evaluator itself, parsing the formula text and then
  evaluating it over the bound names. A parse failure is a syntax error whatever the
  names are; a line without any formula text gives nothing to parse, which is reported as
  a value error.
\<close>

definition formula_eval :: "rat evaluator" where
  "formula_eval code names =
     (case code of
        None \<Rightarrow> Raises ValueError
      | Some s \<Rightarrow>
          (case parse_formula s of
             None \<Rightarrow> Raises SyntaxError
           | Some e \<Rightarrow> eval_expr names e))"

text \<open>
  Modelled from the spec: rounding to a multiple of the currency's rounding increment.
  The spec leaves the rule for ties open; this one rounds halves upwards. An increment
  that is not positive has no multiples to round to: the function raises then.
\<close>

definition round_to_increment :: "rat rounder" where
  "round_to_increment val prec =
     (if prec \<le> 0 then Raises (OtherException ''AssertionError'')
      else Returns (of_int (round (val / prec)) * prec))"

section \<open>Lines to run the engine on\<close>

text \<open>
  An input line and a computed line with a given sequence, for the runs that are
  evaluated below; the id is the sequence, the direction plays no part in the engine.
\<close>

definition input_line :: "int \<Rightarrow> template_line" where
  "input_line seq =
     \<lparr>line_id = nat seq, sequence = seq, type = Input, python_code = None, move_line_type = Dr\<rparr>"

definition computed_line :: "int \<Rightarrow> string \<Rightarrow> template_line" where
  "computed_line seq code =
     \<lparr>line_id = nat seq, sequence = seq, type = Computed, python_code = Some code,
      move_line_type = Cr\<rparr>"

section \<open>Sequence names are injective\<close>

lemma digits_below_10: "d < 10 \<Longrightarrow> d \<in> {0, 1, 2, 3, 4, 5, 6, 7, 8, 9::nat}"
  by auto

lemma digit_value_digit_char: "d < 10 \<Longrightarrow> digit_value (digit_char d) = d"
  by (drule digits_below_10) (auto simp: digit_value_def digit_char_def)

lemma is_digit_digit_char: "d < 10 \<Longrightarrow> is_digit (digit_char d)"
  by (drule digits_below_10) (auto simp: is_digit_def digit_char_def)

lemma nat_of_digits_string_of_nat: "nat_of_digits (string_of_nat n) = n"
proof (induction n rule: string_of_nat.induct)
  case (1 n)
  show ?case
  proof (cases "n < 10")
    case True
    then show ?thesis
      by (subst string_of_nat.simps) (simp add: nat_of_digits_def digit_value_digit_char)
  next
    case False
    with 1 have "nat_of_digits (string_of_nat (n div 10)) = n div 10" by simp
    with False show ?thesis
      by (subst string_of_nat.simps) (simp add: nat_of_digits_def digit_value_digit_char)
  qed
qed

lemma string_of_nat_digits: "c \<in> set (string_of_nat n) \<Longrightarrow> is_digit c"
proof (induction n rule: string_of_nat.induct)
  case (1 n)
  show ?case
  proof (cases "n < 10")
    case True
    with "1.prems" show ?thesis
      by (subst (asm) string_of_nat.simps) (simp add: is_digit_digit_char)
  next
    case False
    with "1.prems" have "c \<in> set (string_of_nat (n div 10)) \<or> c = digit_char (n mod 10)"
      by (subst (asm) string_of_nat.simps) auto
    then show ?thesis
    proof
      assume "c \<in> set (string_of_nat (n div 10))"
      with False show ?thesis by (simp add: "1.IH")
    next
      assume "c = digit_char (n mod 10)"
      then show ?thesis by (simp add: is_digit_digit_char)
    qed
  qed
qed

lemma string_of_nat_nonempty: "string_of_nat n \<noteq> []"
  by (subst string_of_nat.simps) simp

lemma inj_string_of_nat: "string_of_nat m = string_of_nat n \<Longrightarrow> m = n"
  by (metis nat_of_digits_string_of_nat)

lemma is_digit_not_minus: "is_digit c \<Longrightarrow> c \<noteq> CHR ''-''"
  by (auto simp: is_digit_def)

lemma hd_string_of_nat: "hd (string_of_nat n) \<noteq> CHR ''-''"
proof -
  have "hd (string_of_nat n) \<in> set (string_of_nat n)"
    by (simp add: string_of_nat_nonempty)
  then have "is_digit (hd (string_of_nat n))" by (rule string_of_nat_digits)
  then show ?thesis by (rule is_digit_not_minus)
qed

lemma inj_string_of_int: "string_of_int i = string_of_int j \<Longrightarrow> i = j"
proof -
  assume eq: "string_of_int i = string_of_int j"
  have neg: "string_of_nat a \<noteq> CHR ''-'' # s" for a s
    using hd_string_of_nat [of a] by (cases "string_of_nat a") auto
  show ?thesis
  proof (cases "i < 0"; cases "j < 0")
    assume "i < 0" "j < 0"
    with eq have "nat (- i) = nat (- j)"
      by (simp add: string_of_int_def inj_string_of_nat)
    with \<open>i < 0\<close> \<open>j < 0\<close> show ?thesis by simp
  next
    assume "i < 0" "\<not> j < 0"
    with eq neg show ?thesis by (simp add: string_of_int_def) metis
  next
    assume "\<not> i < 0" "j < 0"
    with eq neg show ?thesis by (simp add: string_of_int_def)
  next
    assume "\<not> i < 0" "\<not> j < 0"
    with eq have "nat i = nat j"
      by (simp add: string_of_int_def inj_string_of_nat)
    with \<open>\<not> i < 0\<close> \<open>\<not> j < 0\<close> show ?thesis by simp
  qed
qed

lemma line_name_eq_iff: "line_name i = line_name j \<longleftrightarrow> i = j"
  by (auto simp: line_name_def dest: inj_string_of_int)

section \<open>Dictionaries\<close>

lemma contains_iff: "contains k d = (k \<in> keys d)"
  by (simp add: contains_def keys_def map_of_eq_None_iff)

lemma keys_setitem: "keys (setitem k v d) = insert k (keys d)"
  by (simp add: keys_def setitem_def dom_update)

lemma dict_ok_setitem: "dict_ok d \<Longrightarrow> dict_ok (setitem k v d)"
  by (simp add: dict_ok_def setitem_def distinct_update)

lemma map_of_setitem: "map_of (setitem k v d) k' = (if k' = k then Some v else map_of d k')"
  by (simp add: setitem_def update_conv')

lemma setitem_setitem: "setitem k v (setitem k v' d) = setitem k v d"
  by (simp add: setitem_def)

lemma delete_filter: "AList.delete k d = filter (\<lambda>p. fst p \<noteq> k) d"
  by (induction d) auto

section \<open>The order of the lines\<close>

lemma set_line_ids: "set (line_ids self) = set (line_rows self)"
  by (simp add: line_ids_def)

lemma sorted_line_ids: "sorted (map sequence (line_ids self))"
proof -
  have "sorted (map (\<lambda>l. (sequence l, line_id l)) (line_ids self))"
    by (simp add: line_ids_def)
  then have "sorted_wrt (\<lambda>x y. (sequence x, line_id x) \<le> (sequence y, line_id y)) (line_ids self)"
    by (simp add: sorted_map)
  then have "sorted_wrt (\<lambda>x y. sequence x \<le> sequence y) (line_ids self)"
    by (rule sorted_wrt_mono_rel [rotated]) (auto simp: less_eq_prod_def)
  then show ?thesis by (simp add: sorted_map)
qed

lemma distinct_map_insort_key:
  "distinct (map f (insort_key g x xs)) = (f x \<notin> f ` set xs \<and> distinct (map f xs))"
  by (induction xs) (auto simp: set_insort_key)

lemma distinct_map_sort_key: "distinct (map f (sort_key g xs)) = distinct (map f xs)"
  by (induction xs) (auto simp: distinct_map_insort_key)

lemma distinct_line_ids:
  "sequence_template_uniq self \<Longrightarrow> distinct (map sequence (line_ids self))"
  by (simp add: sequence_template_uniq_def line_ids_def distinct_map_sort_key)

lemma sorted_computed_lines: "sorted (map sequence (computed_lines self))"
  unfolding computed_lines_def by (rule sorted_filter) (rule sorted_line_ids)

lemma distinct_map_filter': "distinct (map f xs) \<Longrightarrow> distinct (map f (filter P xs))"
  by (induction xs) auto

lemma distinct_computed_lines:
  "sequence_template_uniq self \<Longrightarrow> distinct (map sequence (computed_lines self))"
  unfolding computed_lines_def by (rule distinct_map_filter') (rule distinct_line_ids)

lemma distinct_input_lines:
  "sequence_template_uniq self \<Longrightarrow> distinct (map sequence (input_lines self))"
  unfolding input_lines_def by (rule distinct_map_filter') (rule distinct_line_ids)

lemma lines_split:
  "set (line_ids self) = set (input_lines self) \<union> set (computed_lines self)"
proof -
  have "type l = Input \<or> type l = Computed" for l :: template_line
    by (cases "type l") auto
  then show ?thesis
    by (auto simp: input_lines_def computed_lines_def)
qed

lemma input_computed_disjoint:
  assumes "sequence_template_uniq self"
    and "l \<in> set (input_lines self)" and "c \<in> set (computed_lines self)"
  shows "sequence l \<noteq> sequence c"
proof -
  from assms(2,3) have "l \<in> set (line_ids self)" "c \<in> set (line_ids self)" "l \<noteq> c"
    by (auto simp: input_lines_def computed_lines_def)
  with distinct_line_ids [OF assms(1)] show ?thesis
    by (metis distinct_map inj_on_def)
qed

section \<open>Input reconciliation\<close>

lemma keys_delete: "keys (AList.delete k d) = keys d - {k}"
  by (auto simp: keys_def delete_filter)

lemma pop_input_lines_Inr:
  "pop_input_lines ins s2a c = Inr c' \<Longrightarrow>
     (\<forall>l\<in>set ins. sequence l \<in> keys s2a)
     \<and> c' = filter (\<lambda>p. fst p \<notin> sequence ` set ins) c"
proof (induction ins arbitrary: c)
  case Nil
  then show ?case by simp
next
  case (Cons l ins)
  from Cons.prems have present: "sequence l \<in> keys s2a"
    by (auto simp: contains_iff split: if_splits)
  with Cons.prems have rest:
    "pop_input_lines ins s2a (AList.delete (sequence l) c) = Inr c'"
    by (auto simp: contains_iff pop_def split: if_splits sum.splits)
  from Cons.IH [OF rest] present show ?case
    by (auto simp: delete_filter intro: filter_cong)
qed

lemma pop_input_lines_Inl:
  "pop_input_lines ins s2a c = Inl e \<Longrightarrow> e = MissingInputLine \<or> (\<exists>k. e = KeyError k)"
  by (induction ins arbitrary: c) (auto simp: pop_def split: if_splits sum.splits)

lemma pop_input_lines_uniq:
  "distinct (map sequence ins) \<Longrightarrow>
   (\<forall>l\<in>set ins. sequence l \<in> keys s2a \<longrightarrow> sequence l \<in> keys c) \<Longrightarrow>
   pop_input_lines ins s2a c =
     (if \<exists>l\<in>set ins. sequence l \<notin> keys s2a then Inl MissingInputLine
      else Inr (filter (\<lambda>p. fst p \<notin> sequence ` set ins) c))"
proof (induction ins arbitrary: c)
  case Nil
  then show ?case by simp
next
  case (Cons l ins)
  show ?case
  proof (cases "sequence l \<in> keys s2a")
    case False
    then show ?thesis by (simp add: contains_iff)
  next
    case True
    with Cons.prems have inc: "sequence l \<in> keys c" by simp
    have "\<forall>x\<in>set ins. sequence x \<in> keys s2a \<longrightarrow> sequence x \<in> keys (AList.delete (sequence l) c)"
    proof (intro ballI impI)
      fix x assume x: "x \<in> set ins" "sequence x \<in> keys s2a"
      from x Cons.prems(2) have "sequence x \<in> keys c"
        by simp
      moreover from x Cons.prems(1) have "sequence x \<noteq> sequence l"
        by (metis distinct.simps(2) image_eqI list.simps(9) set_map)
      ultimately
      show "sequence x \<in> keys (AList.delete (sequence l) c)"
        by (simp add: keys_delete)
    qed
    with Cons.prems have
      "pop_input_lines ins s2a (AList.delete (sequence l) c) =
         (if \<exists>l\<in>set ins. sequence l \<notin> keys s2a then Inl MissingInputLine
          else Inr (filter (\<lambda>p. fst p \<notin> sequence ` set ins) (AList.delete (sequence l) c)))"
      by (intro Cons.IH) simp_all
    with True inc show ?thesis
      by (auto simp: contains_iff pop_def delete_filter intro: filter_cong)
  qed
qed

lemma filter_keys_empty:
  "(filter (\<lambda>p. fst p \<notin> A) d = []) = (keys d \<subseteq> A)"
  by (auto simp: keys_def filter_empty_conv)

section \<open>Evaluating computed lines\<close>

lemma eval_computed_line_Returns:
  "se (python_code c) (safe_eval_dict_of m) = Returns v \<Longrightarrow>
   eval_computed_line se c m = (Inr (), setitem (sequence c) v m)"
  by (simp add: eval_computed_line_def)

lemma eval_computed_line_Raises:
  "se (python_code c) (safe_eval_dict_of m) = Raises exn \<Longrightarrow>
   eval_computed_line se c m =
     (Inl (case exn of
             ValueError \<Rightarrow> FormulaReferenceError (sequence c) (python_code c)
           | SyntaxError \<Rightarrow> FormulaSyntaxError (sequence c) (python_code c)
           | _ \<Rightarrow> Uncaught exn), m)"
  by (cases exn) (simp_all add: eval_computed_line_def)

lemma eval_computed_line_Inl:
  "eval_computed_line se c m = (Inl e, s) \<Longrightarrow>
     s = m \<and> e \<noteq> MissingInputLine \<and> e \<noteq> ExtraneousInputLine \<and> (\<forall>k. e \<noteq> KeyError k)"
  by (auto simp: eval_computed_line_def split: eval_result.splits py_exception.splits)

text \<open>The three ways a step of the loop can go.\<close>

lemma eval_computed_lines_Cons_Raises:
  "se (python_code c) (safe_eval_dict_of m) = Raises exn \<Longrightarrow>
   eval_computed_lines se fr prec (c # cs) m = eval_computed_line se c m"
  by (cases exn) (simp_all add: eval_computed_line_def)

lemma eval_computed_lines_Cons_round_Raises:
  "se (python_code c) (safe_eval_dict_of m) = Returns v \<Longrightarrow> fr v prec = Raises exn \<Longrightarrow>
   eval_computed_lines se fr prec (c # cs) m = (Inl (Uncaught exn), setitem (sequence c) v m)"
  by (simp add: eval_computed_line_Returns map_of_setitem)

lemma eval_computed_lines_Cons_Returns:
  "se (python_code c) (safe_eval_dict_of m) = Returns v \<Longrightarrow> fr v prec = Returns r \<Longrightarrow>
   eval_computed_lines se fr prec (c # cs) m =
     eval_computed_lines se fr prec cs (setitem (sequence c) r m)"
  by (simp add: eval_computed_line_Returns map_of_setitem setitem_setitem)

lemma eval_computed_lines_Cons_Inr:
  assumes "eval_computed_lines se fr prec (c # cs) m = (Inr u, s)"
  shows "\<exists>v r. se (python_code c) (safe_eval_dict_of m) = Returns v \<and> fr v prec = Returns r
     \<and> eval_computed_lines se fr prec cs (setitem (sequence c) r m) = (Inr u, s)"
proof (cases "se (python_code c) (safe_eval_dict_of m)")
  case (Raises exn)
  with assms show ?thesis
    by (simp only: eval_computed_lines_Cons_Raises eval_computed_line_Raises) simp
next
  case (Returns v)
  show ?thesis
  proof (cases "fr v prec")
    case (Raises exn)
    with Returns assms show ?thesis
      by (simp only: eval_computed_lines_Cons_round_Raises) simp
  next
    case r: (Returns r)
    with Returns assms show ?thesis
      by (simp only: eval_computed_lines_Cons_Returns) simp
  qed
qed

lemma eval_computed_lines_append:
  "eval_computed_lines se fr prec (xs @ ys) m =
     (case eval_computed_lines se fr prec xs m of
        (Inl e, s) \<Rightarrow> (Inl e, s)
      | (Inr u, s) \<Rightarrow> eval_computed_lines se fr prec ys s)"
proof (induction xs arbitrary: m)
  case Nil
  then show ?case by simp
next
  case (Cons x xs)
  show ?case
  proof (cases "se (python_code x) (safe_eval_dict_of m)")
    case (Raises exn)
    then show ?thesis
      by (simp only: append_Cons eval_computed_lines_Cons_Raises eval_computed_line_Raises) simp
  next
    case (Returns v)
    show ?thesis
    proof (cases "fr v prec")
      case (Raises exn)
      with Returns show ?thesis
        by (simp only: append_Cons eval_computed_lines_Cons_round_Raises) simp
    next
      case r: (Returns r)
      with Returns show ?thesis
        by (simp only: append_Cons eval_computed_lines_Cons_Returns Cons.IH)
    qed
  qed
qed

lemma eval_computed_lines_append_Inr:
  assumes "eval_computed_lines se fr prec (xs @ ys) m = (Inr u, s)"
  shows "\<exists>m'. eval_computed_lines se fr prec xs m = (Inr (), m')
     \<and> eval_computed_lines se fr prec ys m' = (Inr u, s)"
proof (cases "eval_computed_lines se fr prec xs m")
  case (Pair out m')
  with assms show ?thesis
    by (cases out) (simp_all add: eval_computed_lines_append)
qed

text \<open>
  A failing loop has stopped at some line: either the evaluator raised there, and the
  dictionary is the one after the lines before it, or the rounding raised there, and the
  dictionary holds in addition the value of that line, not rounded.
\<close>

lemma eval_computed_lines_Inl:
  "eval_computed_lines se fr prec cs m = (Inl e, s) \<Longrightarrow>
     (\<exists>cs1 c cs2 exn. cs = cs1 @ c # cs2
        \<and> eval_computed_lines se fr prec cs1 m = (Inr (), s)
        \<and> se (python_code c) (safe_eval_dict_of s) = Raises exn
        \<and> eval_computed_line se c s = (Inl e, s))
   \<or> (\<exists>cs1 c cs2 m' v exn. cs = cs1 @ c # cs2
        \<and> eval_computed_lines se fr prec cs1 m = (Inr (), m')
        \<and> se (python_code c) (safe_eval_dict_of m') = Returns v
        \<and> fr v prec = Raises exn
        \<and> e = Uncaught exn
        \<and> s = setitem (sequence c) v m')"
proof (induction cs arbitrary: m)
  case Nil
  then show ?case by simp
next
  case (Cons x xs)
  show ?case
  proof (cases "se (python_code x) (safe_eval_dict_of m)")
    case (Raises exn)
    with Cons.prems have line: "eval_computed_line se x m = (Inl e, s)"
      by (simp only: eval_computed_lines_Cons_Raises)
    then have "s = m" by (simp add: eval_computed_line_Inl)
    with line Raises have "x # xs = [] @ x # xs
        \<and> eval_computed_lines se fr prec [] m = (Inr (), s)
        \<and> se (python_code x) (safe_eval_dict_of s) = Raises exn
        \<and> eval_computed_line se x s = (Inl e, s)"
      by simp
    then show ?thesis by blast
  next
    case (Returns v)
    show ?thesis
    proof (cases "fr v prec")
      case (Raises exn)
      with Returns Cons.prems have "e = Uncaught exn" "s = setitem (sequence x) v m"
        by (simp_all only: eval_computed_lines_Cons_round_Raises prod.inject sum.inject)
      with Returns Raises have "x # xs = [] @ x # xs
          \<and> eval_computed_lines se fr prec [] m = (Inr (), m)
          \<and> se (python_code x) (safe_eval_dict_of m) = Returns v
          \<and> fr v prec = Raises exn
          \<and> e = Uncaught exn
          \<and> s = setitem (sequence x) v m"
        by simp
      then show ?thesis by blast
    next
      case r: (Returns r)
      let ?m = "setitem (sequence x) r m"
      note step = eval_computed_lines_Cons_Returns [of se x m v fr prec r, OF Returns r]
      from Cons.prems have rest: "eval_computed_lines se fr prec xs ?m = (Inl e, s)"
        by (simp only: step)
      from Cons.IH [OF rest] show ?thesis
      proof
        assume "\<exists>cs1 c cs2 exn. xs = cs1 @ c # cs2
          \<and> eval_computed_lines se fr prec cs1 ?m = (Inr (), s)
          \<and> se (python_code c) (safe_eval_dict_of s) = Raises exn
          \<and> eval_computed_line se c s = (Inl e, s)"
        then obtain cs1 c cs2 exn where h: "xs = cs1 @ c # cs2"
          "eval_computed_lines se fr prec cs1 ?m = (Inr (), s)"
          "se (python_code c) (safe_eval_dict_of s) = Raises exn"
          "eval_computed_line se c s = (Inl e, s)"
          by blast
        from h(2) have "eval_computed_lines se fr prec (x # cs1) m = (Inr (), s)"
          by (simp only: eval_computed_lines_Cons_Returns [of se x m v fr prec r, OF Returns r])
        with h have "x # xs = (x # cs1) @ c # cs2
          \<and> eval_computed_lines se fr prec (x # cs1) m = (Inr (), s)
          \<and> se (python_code c) (safe_eval_dict_of s) = Raises exn
          \<and> eval_computed_line se c s = (Inl e, s)"
          by simp
        then show ?thesis by blast
      next
        assume "\<exists>cs1 c cs2 m' v exn. xs = cs1 @ c # cs2
          \<and> eval_computed_lines se fr prec cs1 ?m = (Inr (), m')
          \<and> se (python_code c) (safe_eval_dict_of m') = Returns v
          \<and> fr v prec = Raises exn
          \<and> e = Uncaught exn
          \<and> s = setitem (sequence c) v m'"
        then obtain cs1 c cs2 m' w exn where h: "xs = cs1 @ c # cs2"
          "eval_computed_lines se fr prec cs1 ?m = (Inr (), m')"
          "se (python_code c) (safe_eval_dict_of m') = Returns w"
          "fr w prec = Raises exn" "e = Uncaught exn" "s = setitem (sequence c) w m'"
          by blast
        from h(2) have "eval_computed_lines se fr prec (x # cs1) m = (Inr (), m')"
          by (simp only: eval_computed_lines_Cons_Returns [of se x m v fr prec r, OF Returns r])
        with h have "x # xs = (x # cs1) @ c # cs2
          \<and> eval_computed_lines se fr prec (x # cs1) m = (Inr (), m')
          \<and> se (python_code c) (safe_eval_dict_of m') = Returns w
          \<and> fr w prec = Raises exn
          \<and> e = Uncaught exn
          \<and> s = setitem (sequence c) w m'"
          by simp
        then show ?thesis by blast
      qed
    qed
  qed
qed

lemma eval_computed_lines_keys:
  "eval_computed_lines se fr prec cs m = (Inr u, s) \<Longrightarrow> keys s = keys m \<union> sequence ` set cs"
proof (induction cs arbitrary: m)
  case Nil
  then show ?case by simp
next
  case (Cons x xs)
  from eval_computed_lines_Cons_Inr [OF Cons.prems] obtain v r where
    "eval_computed_lines se fr prec xs (setitem (sequence x) r m) = (Inr u, s)"
    by blast
  from Cons.IH [OF this] show ?case by (simp add: keys_setitem)
qed

lemma eval_computed_lines_frame:
  "eval_computed_lines se fr prec cs m = (out, s) \<Longrightarrow> k \<notin> sequence ` set cs \<Longrightarrow>
     map_of s k = map_of m k"
proof (induction cs arbitrary: m)
  case Nil
  then show ?case by simp
next
  case (Cons x xs)
  show ?case
  proof (cases "se (python_code x) (safe_eval_dict_of m)")
    case (Raises exn)
    with Cons.prems show ?thesis
      by (simp only: eval_computed_lines_Cons_Raises eval_computed_line_Raises) simp
  next
    case (Returns v)
    show ?thesis
    proof (cases "fr v prec")
      case (Raises exn)
      with Returns Cons.prems show ?thesis
        by (simp only: eval_computed_lines_Cons_round_Raises) (auto simp: map_of_setitem)
    next
      case r: (Returns r)
      with Returns Cons.prems have
        "eval_computed_lines se fr prec xs (setitem (sequence x) r m) = (out, s)"
        by (simp only: eval_computed_lines_Cons_Returns)
      from Cons.IH [OF this] Cons.prems(2) show ?thesis by (simp add: map_of_setitem)
    qed
  qed
qed

lemma eval_computed_lines_dict_ok:
  "eval_computed_lines se fr prec cs m = (out, s) \<Longrightarrow> dict_ok m \<Longrightarrow> dict_ok s"
proof (induction cs arbitrary: m)
  case Nil
  then show ?case by simp
next
  case (Cons x xs)
  show ?case
  proof (cases "se (python_code x) (safe_eval_dict_of m)")
    case (Raises exn)
    with Cons.prems show ?thesis
      by (simp only: eval_computed_lines_Cons_Raises eval_computed_line_Raises) simp
  next
    case (Returns v)
    show ?thesis
    proof (cases "fr v prec")
      case (Raises exn)
      with Returns Cons.prems show ?thesis
        by (simp only: eval_computed_lines_Cons_round_Raises) (auto simp: dict_ok_setitem)
    next
      case r: (Returns r)
      with Returns Cons.prems have
        "eval_computed_lines se fr prec xs (setitem (sequence x) r m) = (out, s)"
        by (simp only: eval_computed_lines_Cons_Returns)
      from Cons.IH [OF this] Cons.prems(2) show ?thesis by (simp add: dict_ok_setitem)
    qed
  qed
qed

text \<open>
  After a loop that went through, every line of it was evaluated in the dictionary left
  by the lines before it, and, when no two of the lines share a sequence, the dictionary
  holds the rounding of that value under the line's sequence.
\<close>

lemma eval_computed_lines_rounded:
  assumes "eval_computed_lines se fr prec (xs @ b # ys) m = (Inr u, s)"
    and "distinct (map sequence (xs @ b # ys))"
  shows "\<exists>m' v r. eval_computed_lines se fr prec xs m = (Inr (), m')
     \<and> se (python_code b) (safe_eval_dict_of m') = Returns v
     \<and> fr v prec = Returns r
     \<and> map_of s (sequence b) = Some r"
proof -
  from eval_computed_lines_append_Inr [OF assms(1)] obtain m' where
    pre: "eval_computed_lines se fr prec xs m = (Inr (), m')" and
    post: "eval_computed_lines se fr prec (b # ys) m' = (Inr u, s)"
    by blast
  from eval_computed_lines_Cons_Inr [OF post] obtain v r where
    v: "se (python_code b) (safe_eval_dict_of m') = Returns v" and
    r: "fr v prec = Returns r" and
    rest: "eval_computed_lines se fr prec ys (setitem (sequence b) r m') = (Inr u, s)"
    by blast
  from assms(2) have "sequence b \<notin> sequence ` set ys" by auto
  with rest have "map_of s (sequence b) = map_of (setitem (sequence b) r m') (sequence b)"
    by (rule eval_computed_lines_frame)
  then have "map_of s (sequence b) = Some r" by (simp add: map_of_setitem)
  with pre v r show ?thesis by blast
qed

section \<open>The names bound for a formula\<close>

lemma keys_build_safe_eval_dict:
  "keys (build_safe_eval_dict items d) = keys d \<union> line_name ` fst ` set items"
  by (induction items d rule: build_safe_eval_dict.induct) (auto simp: keys_setitem)

lemma keys_safe_eval_dict_of: "keys (safe_eval_dict_of m) = line_name ` keys m"
  by (simp add: safe_eval_dict_of_def keys_build_safe_eval_dict) (simp add: keys_def)

lemma map_of_build_safe_eval_dict:
  "distinct (map fst items) \<Longrightarrow>
   map_of (build_safe_eval_dict items d) (line_name k) =
     (case map_of items k of Some v \<Rightarrow> Some v | None \<Rightarrow> map_of d (line_name k))"
proof (induction items d rule: build_safe_eval_dict.induct)
  case (1 d)
  then show ?case by simp
next
  case (2 seq amount items d)
  then have "map_of items seq = None"
    by (auto simp: map_of_eq_None_iff)
  with 2 show ?case
    by (auto simp: map_of_setitem line_name_eq_iff split: option.splits)
qed

lemma map_of_safe_eval_dict_of:
  "dict_ok m \<Longrightarrow> map_of (safe_eval_dict_of m) (line_name k) = map_of m k"
  by (simp add: safe_eval_dict_of_def dict_ok_def map_of_build_safe_eval_dict split: option.splits)

section \<open>The two phases of a run\<close>

lemma set_input_lines:
  "set (input_lines self) = {l \<in> set (line_rows self). type l = Input}"
  by (auto simp: input_lines_def set_line_ids)

lemma set_computed_lines:
  "set (computed_lines self) = {l \<in> set (line_rows self). type l = Computed}"
  by (auto simp: computed_lines_def set_line_ids)

lemma pop_input_lines_pass:
  assumes "sequence_template_uniq self"
    and "keys s2a = sequence ` set (input_lines self)"
  shows "pop_input_lines (input_lines self) s2a s2a = Inr []"
proof -
  have "pop_input_lines (input_lines self) s2a s2a =
     (if \<exists>l\<in>set (input_lines self). sequence l \<notin> keys s2a then Inl MissingInputLine
      else Inr (filter (\<lambda>p. fst p \<notin> sequence ` set (input_lines self)) s2a))"
    by (rule pop_input_lines_uniq) (simp_all add: distinct_input_lines assms(1))
  moreover have "filter (\<lambda>p. fst p \<notin> sequence ` set (input_lines self)) s2a = []"
    by (simp add: filter_keys_empty assms(2))
  ultimately show ?thesis using assms(2) by auto
qed

lemma pop_input_lines_pass_keys:
  assumes "pop_input_lines (input_lines self) s2a s2a = Inr []"
  shows "keys s2a = sequence ` set (input_lines self)"
proof -
  from pop_input_lines_Inr [OF assms] have
    "\<forall>l\<in>set (input_lines self). sequence l \<in> keys s2a"
    "filter (\<lambda>p. fst p \<notin> sequence ` set (input_lines self)) s2a = []"
    by simp_all
  then show ?thesis by (auto simp: filter_keys_empty)
qed

lemma compute_lines_pass:
  "pop_input_lines (input_lines self) s2a s2a = Inr [] \<Longrightarrow>
   compute_lines se fr self s2a =
     (case eval_computed_lines se fr (rounding self) (computed_lines self) s2a of
        (Inl e, s) \<Rightarrow> (Inl e, s)
      | (Inr u, s) \<Rightarrow> (Inr s, s))"
  by (simp add: compute_lines_def)

lemma compute_lines_Inr:
  assumes "fst (compute_lines se fr self s2a) = Inr r"
  shows "pop_input_lines (input_lines self) s2a s2a = Inr []
     \<and> eval_computed_lines se fr (rounding self) (computed_lines self) s2a = (Inr (), r)"
  using assms
  by (auto simp: compute_lines_def Let_def split: sum.splits if_splits prod.splits)

lemma eval_computed_lines_no_reconciliation_error:
  "eval_computed_lines se fr prec cs m = (Inl e, s) \<Longrightarrow>
     e \<noteq> MissingInputLine \<and> e \<noteq> ExtraneousInputLine \<and> (\<forall>k. e \<noteq> KeyError k)"
  by (blast dest: eval_computed_lines_Inl eval_computed_line_Inl)

lemma compute_lines_uniq_cases:
  assumes "sequence_template_uniq self"
  shows "compute_lines se fr self s2a =
     (if \<exists>l\<in>set (input_lines self). sequence l \<notin> keys s2a then (Inl MissingInputLine, s2a)
      else if \<exists>k\<in>keys s2a. k \<notin> sequence ` set (input_lines self)
        then (Inl ExtraneousInputLine, s2a)
      else (case eval_computed_lines se fr (rounding self) (computed_lines self) s2a of
              (Inl e, s) \<Rightarrow> (Inl e, s)
            | (Inr u, s) \<Rightarrow> (Inr s, s)))"
proof -
  have pop: "pop_input_lines (input_lines self) s2a s2a =
     (if \<exists>l\<in>set (input_lines self). sequence l \<notin> keys s2a then Inl MissingInputLine
      else Inr (filter (\<lambda>p. fst p \<notin> sequence ` set (input_lines self)) s2a))"
    by (rule pop_input_lines_uniq) (simp_all add: distinct_input_lines assms)
  have "(filter (\<lambda>p. fst p \<notin> sequence ` set (input_lines self)) s2a \<noteq> []) =
      (\<exists>k\<in>keys s2a. k \<notin> sequence ` set (input_lines self))"
    by (auto simp: filter_keys_empty)
  with pop show ?thesis
    by (simp add: compute_lines_def)
qed

lemma sorted_distinct_split:
  assumes "sorted (map f (xs @ c # ys))" and "distinct (map f (xs @ c # ys))"
  shows "(\<forall>b\<in>set xs. f b < f c) \<and> (\<forall>d\<in>set ys. f c < f d)"
proof -
  from assms(1) have "\<forall>b\<in>set xs. f b \<le> f c" "\<forall>d\<in>set ys. f c \<le> f d"
    by (auto simp: sorted_append)
  moreover from assms(2) have "f c \<notin> f ` set xs" "f c \<notin> f ` set ys"
    by auto
  then have "\<forall>b\<in>set xs. f b \<noteq> f c" "\<forall>d\<in>set ys. f c \<noteq> f d"
    by (metis image_eqI)+
  ultimately show ?thesis by (simp add: order_less_le)
qed

lemma computed_lines_split:
  assumes "sequence_template_uniq self" and "computed_lines self = cs1 @ c # cs2"
  shows "(\<forall>b\<in>set cs1. sequence b < sequence c) \<and> (\<forall>d\<in>set cs2. sequence c < sequence d)"
  using sorted_computed_lines [of self] distinct_computed_lines [OF assms(1)]
  unfolding assms(2) by (rule sorted_distinct_split)

lemma compute_lines_at:
  assumes "sequence_template_uniq self"
    and "keys s2a = sequence ` set (input_lines self)"
    and "computed_lines self = cs1 @ c # cs2"
    and "eval_computed_lines se fr (rounding self) cs1 s2a = (Inr (), m)"
  shows "compute_lines se fr self s2a =
     (case eval_computed_lines se fr (rounding self) (c # cs2) m of
        (Inl e, s) \<Rightarrow> (Inl e, s)
      | (Inr u, s) \<Rightarrow> (Inr s, s))"
proof -
  have "eval_computed_lines se fr (rounding self) (computed_lines self) s2a =
      eval_computed_lines se fr (rounding self) (c # cs2) m"
    unfolding assms(3) by (simp only: eval_computed_lines_append assms(4)) simp
  with pop_input_lines_pass [OF assms(1,2)] show ?thesis
    by (simp only: compute_lines_pass)
qed

lemma compute_lines_at_Raises:
  assumes "sequence_template_uniq self"
    and "keys s2a = sequence ` set (input_lines self)"
    and "computed_lines self = cs1 @ c # cs2"
    and "eval_computed_lines se fr (rounding self) cs1 s2a = (Inr (), m)"
    and "se (python_code c) (safe_eval_dict_of m) = Raises exn"
  shows "compute_lines se fr self s2a =
     (Inl (case exn of
             ValueError \<Rightarrow> FormulaReferenceError (sequence c) (python_code c)
           | SyntaxError \<Rightarrow> FormulaSyntaxError (sequence c) (python_code c)
           | _ \<Rightarrow> Uncaught exn), m)"
  using eval_computed_lines_Cons_Raises [of se c m exn fr "rounding self" cs2, OF assms(5)]
    eval_computed_line_Raises [of se c m exn, OF assms(5)]
  by (simp add: compute_lines_at [OF assms(1-4)])

lemma compute_lines_at_Returns:
  assumes "sequence_template_uniq self"
    and "keys s2a = sequence ` set (input_lines self)"
    and "computed_lines self = cs1 @ c # cs2"
    and "eval_computed_lines se fr (rounding self) cs1 s2a = (Inr (), m)"
    and "se (python_code c) (safe_eval_dict_of m) = Returns v"
  shows "compute_lines se fr self s2a =
     (case fr v (rounding self) of
        Raises exn \<Rightarrow> (Inl (Uncaught exn), setitem (sequence c) v m)
      | Returns r \<Rightarrow>
          (case eval_computed_lines se fr (rounding self) cs2 (setitem (sequence c) r m) of
             (Inl e, s) \<Rightarrow> (Inl e, s)
           | (Inr u, s) \<Rightarrow> (Inr s, s)))"
proof (cases "fr v (rounding self)")
  case (Raises exn)
  with eval_computed_lines_Cons_round_Raises [of se c m v fr "rounding self" exn cs2, OF assms(5)]
  show ?thesis by (simp add: compute_lines_at [OF assms(1-4)])
next
  case (Returns r)
  with eval_computed_lines_Cons_Returns [of se c m v fr "rounding self" r cs2, OF assms(5)]
  show ?thesis by (simp add: compute_lines_at [OF assms(1-4)])
qed

section \<open>Evaluating a concrete run\<close>

lemmas run_simps =
  compute_lines_def input_lines_def computed_lines_def line_ids_def
  input_line_def computed_line_def
  pop_def contains_def setitem_def safe_eval_dict_of_def line_name_def string_of_int_def
  string_of_nat.simps digit_char_def eval_computed_line_def
  formula_eval_def parse_formula_def is_digit_def is_letter_def digit_value_def separator_def
  round_to_increment_def round_def floor_eq_iff keys_def sequence_template_uniq_def dict_ok_def

section \<open>The result of a run\<close>

text \<open>
  C3. When \<^verbatim>\<open>compute_lines\<close> returns a mapping, its keys are exactly the sequences of the
  template's lines, input and computed alike; the mapping returned is the caller's
  dictionary as the call leaves it.
\<close>

theorem compute_lines_complete:
  assumes "fst (compute_lines se fr self s2a) = Inr r"
  shows "keys r = sequence ` set (line_rows self) \<and> snd (compute_lines se fr self s2a) = r"
proof -
  from compute_lines_Inr [OF assms] have
    pop: "pop_input_lines (input_lines self) s2a s2a = Inr []" and
    loop: "eval_computed_lines se fr (rounding self) (computed_lines self) s2a = (Inr (), r)"
    by simp_all
  from pop have "keys s2a = sequence ` set (input_lines self)"
    by (rule pop_input_lines_pass_keys)
  moreover from loop have "keys r = keys s2a \<union> sequence ` set (computed_lines self)"
    by (rule eval_computed_lines_keys)
  ultimately have "keys r = sequence ` set (line_ids self)"
    by (simp add: lines_split image_Un)
  moreover from pop loop have "snd (compute_lines se fr self s2a) = r"
    by (simp add: compute_lines_pass)
  ultimately show ?thesis by (simp add: set_line_ids)
qed

theorem compute_lines_complete_witness:
  "fst (compute_lines formula_eval round_to_increment
      \<lparr>rounding = 1 / 100,
       line_rows = [computed_line 3 ''L1+L2'', input_line 1, input_line 2]\<rparr>
      [(1, 100), (2, 50005 / 1000)])
     = Inr [(1, 100), (2, 50005 / 1000), (3, 15001 / 100)]
   \<and> keys [(1, 100 :: rat), (2, 50005 / 1000), (3, 15001 / 100)] = {1, 2, 3 :: int}"
proof -
  let ?t = "\<lparr>rounding = 1 / 100 :: rat,
       line_rows = [computed_line 3 ''L1+L2'', input_line 1, input_line 2]\<rparr>"
  have run: "fst (compute_lines formula_eval round_to_increment ?t [(1, 100), (2, 50005 / 1000)])
     = Inr [(1, 100), (2, 50005 / 1000), (3, 15001 / 100)]"
    by (simp add: run_simps)
  from compute_lines_complete [OF run] have
    "keys [(1, 100 :: rat), (2, 50005 / 1000), (3, 15001 / 100)] = sequence ` set (line_rows ?t)"
    by (rule conjunct1)
  with run show ?thesis
    by (simp add: input_line_def computed_line_def insert_commute)
qed

text \<open>
  C4. Input reconciliation, for a template whose lines have distinct sequences (the
  constraint \<^verbatim>\<open>sequence_template_uniq\<close>). The run fails with the error for a missing input
  line exactly when the sequence of some input line is not a key of the supplied amounts;
  it fails with the error for an extraneous line exactly when every input sequence is a
  key and some key is not the sequence of an input line. Unless the keys are exactly
  the input sequences the run ends with one of the two errors and the supplied dictionary
  untouched, whatever the evaluator is; when they are, the run is the evaluation of the
  computed lines.
\<close>

theorem compute_lines_reconciliation:
  assumes "sequence_template_uniq self"
  shows "(fst (compute_lines se fr self s2a) = Inl MissingInputLine) =
           (\<exists>l\<in>set (input_lines self). sequence l \<notin> keys s2a)
       \<and> (fst (compute_lines se fr self s2a) = Inl ExtraneousInputLine) =
           ((\<forall>l\<in>set (input_lines self). sequence l \<in> keys s2a)
            \<and> (\<exists>k\<in>keys s2a. k \<notin> sequence ` set (input_lines self)))
       \<and> (keys s2a \<noteq> sequence ` set (input_lines self) \<longrightarrow>
             compute_lines se fr self s2a = (Inl MissingInputLine, s2a)
             \<or> compute_lines se fr self s2a = (Inl ExtraneousInputLine, s2a))
       \<and> (keys s2a = sequence ` set (input_lines self) \<longrightarrow>
             compute_lines se fr self s2a =
               (case eval_computed_lines se fr (rounding self) (computed_lines self) s2a of
                  (Inl e, s) \<Rightarrow> (Inl e, s)
                | (Inr u, s) \<Rightarrow> (Inr s, s)))"
proof -
  let ?missing = "\<exists>l\<in>set (input_lines self). sequence l \<notin> keys s2a"
  let ?extra = "\<exists>k\<in>keys s2a. k \<notin> sequence ` set (input_lines self)"
  let ?loop = "eval_computed_lines se fr (rounding self) (computed_lines self) s2a"
  let ?finish = "case ?loop of (Inl e, s) \<Rightarrow> (Inl e, s) | (Inr u, s) \<Rightarrow> (Inr s, s)"
  note cases = compute_lines_uniq_cases [OF assms, of se fr s2a]
  have loop: "fst ?finish \<noteq> Inl MissingInputLine \<and> fst ?finish \<noteq> Inl ExtraneousInputLine"
    using eval_computed_lines_no_reconciliation_error [of se fr "rounding self" "computed_lines self" s2a]
    by (cases ?loop) (auto split: sum.splits)
  have m: "(fst (compute_lines se fr self s2a) = Inl MissingInputLine) = ?missing"
    using cases loop by (cases ?missing; cases ?extra) simp_all
  have x: "(fst (compute_lines se fr self s2a) = Inl ExtraneousInputLine) = (\<not> ?missing \<and> ?extra)"
    using cases loop by (cases ?missing; cases ?extra) simp_all
  have ne: "compute_lines se fr self s2a = (Inl MissingInputLine, s2a)
             \<or> compute_lines se fr self s2a = (Inl ExtraneousInputLine, s2a)"
    if h: "keys s2a \<noteq> sequence ` set (input_lines self)"
  proof -
    from h have "?missing \<or> ?extra" by auto
    with cases show ?thesis by (cases ?missing) auto
  qed
  have eq: "compute_lines se fr self s2a = ?finish"
    if h: "keys s2a = sequence ` set (input_lines self)"
  proof -
    from h have "\<not> ?missing \<and> \<not> ?extra" by auto
    with cases show ?thesis by auto
  qed
  from m x ne eq show ?thesis by blast
qed

theorem compute_lines_reconciliation_witness:
  "sequence_template_uniq
     \<lparr>rounding = 1 / 100 :: rat,
      line_rows = [computed_line 3 ''L1+L2'', input_line 1, input_line 2]\<rparr>
   \<and> fst (compute_lines formula_eval round_to_increment
      \<lparr>rounding = 1 / 100,
       line_rows = [computed_line 3 ''L1+L2'', input_line 1, input_line 2]\<rparr>
      [(1, 100)]) = Inl MissingInputLine
   \<and> fst (compute_lines formula_eval round_to_increment
      \<lparr>rounding = 1 / 100,
       line_rows = [computed_line 3 ''L1+L2'', input_line 1, input_line 2]\<rparr>
      [(1, 100), (2, 50), (5, 10)]) = Inl ExtraneousInputLine
   \<and> compute_lines formula_eval round_to_increment
      \<lparr>rounding = 1 / 100,
       line_rows = [computed_line 3 ''L1+L2'', input_line 1, input_line 2]\<rparr>
      [(1, 100), (2, 50)] = (Inr [(1, 100), (2, 50), (3, 150)], [(1, 100), (2, 50), (3, 150)])"
proof -
  let ?t = "\<lparr>rounding = 1 / 100 :: rat,
       line_rows = [computed_line 3 ''L1+L2'', input_line 1, input_line 2]\<rparr>"
  have u: "sequence_template_uniq ?t"
    by (simp add: sequence_template_uniq_def input_line_def computed_line_def)
  have ins: "input_lines ?t = [input_line 1, input_line 2]"
    by (simp add: input_lines_def line_ids_def input_line_def computed_line_def)
  have cs: "computed_lines ?t = [computed_line 3 ''L1+L2'']"
    by (simp add: computed_lines_def line_ids_def input_line_def computed_line_def)
  note r = compute_lines_reconciliation [OF u, of formula_eval round_to_increment, unfolded ins]
  from r [of "[(1, 100)]"] have a:
    "fst (compute_lines formula_eval round_to_increment ?t [(1, 100)]) = Inl MissingInputLine"
    by (simp add: keys_def input_line_def)
  from r [of "[(1, 100), (2, 50), (5, 10)]"] have b:
    "fst (compute_lines formula_eval round_to_increment ?t [(1, 100), (2, 50), (5, 10)])
       = Inl ExtraneousInputLine"
    by (simp add: keys_def input_line_def)
  have k: "keys [(1, 100 :: rat), (2, 50)] = sequence ` set [input_line 1, input_line 2]"
    by (simp add: keys_def input_line_def)
  with r [of "[(1, 100), (2, 50)]"] have
    "compute_lines formula_eval round_to_increment ?t [(1, 100), (2, 50)] =
       (case eval_computed_lines formula_eval round_to_increment (rounding ?t) (computed_lines ?t)
               [(1, 100), (2, 50)] of
          (Inl e, s) \<Rightarrow> (Inl e, s)
        | (Inr u, s) \<Rightarrow> (Inr s, s))"
    by blast
  then have c: "compute_lines formula_eval round_to_increment ?t [(1, 100), (2, 50)]
      = (Inr [(1, 100), (2, 50), (3, 150)], [(1, 100), (2, 50), (3, 150)])"
    unfolding cs by (simp add: run_simps)
  from u a b c show ?thesis by simp
qed

text \<open>
  C5. In a template with distinct sequences, when \<^verbatim>\<open>compute_lines\<close> returns a mapping,
  the amount it holds for every input line is the amount that was supplied for it:
  whatever the rounding function does, it is not applied to input amounts.
\<close>

theorem compute_lines_inputs_preserved:
  assumes "sequence_template_uniq self"
    and "fst (compute_lines se fr self s2a) = Inr r"
    and "l \<in> set (line_rows self)" and "type l = Input"
  shows "\<exists>v. map_of s2a (sequence l) = Some v \<and> map_of r (sequence l) = Some v"
proof -
  from compute_lines_Inr [OF assms(2)] have
    pop: "pop_input_lines (input_lines self) s2a s2a = Inr []" and
    loop: "eval_computed_lines se fr (rounding self) (computed_lines self) s2a = (Inr (), r)"
    by simp_all
  from assms(3,4) have l: "l \<in> set (input_lines self)"
    by (simp add: set_input_lines)
  with pop_input_lines_Inr [OF pop] have "sequence l \<in> keys s2a" by simp
  then obtain v where v: "map_of s2a (sequence l) = Some v"
    using contains_iff [of "sequence l" s2a] by (auto simp: contains_def)
  from l assms(1) have "sequence l \<notin> sequence ` set (computed_lines self)"
    by (auto dest: input_computed_disjoint)
  with loop have "map_of r (sequence l) = map_of s2a (sequence l)"
    by (rule eval_computed_lines_frame)
  with v show ?thesis by simp
qed

theorem compute_lines_inputs_preserved_witness:
  "fst (compute_lines formula_eval round_to_increment
      \<lparr>rounding = 1 / 100,
       line_rows = [computed_line 3 ''L1+L2'', input_line 1, input_line 2]\<rparr>
      [(1, 100), (2, 50005 / 1000)])
     = Inr [(1, 100), (2, 50005 / 1000), (3, 15001 / 100)]
   \<and> map_of [(1, 100 :: rat), (2, 50005 / 1000)] (2 :: int) = Some (50005 / 1000)
   \<and> map_of [(1, 100 :: rat), (2, 50005 / 1000), (3, 15001 / 100)] (2 :: int)
       = Some (50005 / 1000)"
proof -
  let ?t = "\<lparr>rounding = 1 / 100 :: rat,
       line_rows = [computed_line 3 ''L1+L2'', input_line 1, input_line 2]\<rparr>"
  have u: "sequence_template_uniq ?t"
    by (simp add: sequence_template_uniq_def input_line_def computed_line_def)
  have run: "fst (compute_lines formula_eval round_to_increment ?t [(1, 100), (2, 50005 / 1000)])
     = Inr [(1, 100), (2, 50005 / 1000), (3, 15001 / 100)]"
    by (simp add: run_simps)
  have l: "input_line 2 \<in> set (line_rows ?t)" "type (input_line 2) = Input"
    by (simp_all add: input_line_def)
  from compute_lines_inputs_preserved [OF u run l] run show ?thesis
    by (simp add: input_line_def)
qed

section \<open>Evaluation of the computed lines\<close>

text \<open>
  C6. The computed lines are evaluated in ascending order of sequence. In a template with
  distinct sequences, take a run that passes reconciliation and has reached the computed
  line \<open>c\<close> with the dictionary \<open>m\<close>, and let the formula of \<open>c\<close> evaluate to \<open>v\<close>. The lines
  before \<open>c\<close> have smaller sequences and the lines after it greater ones. When the rounding
  of \<open>v\<close> to the template's precision returns \<open>r\<close>, the run goes on with the remaining lines
  from the dictionary that holds \<open>r\<close> under the sequence of \<open>c\<close>, and the names bound for the
  formula of every later line give the name of \<open>c\<close> that rounded amount. (When the rounding
  raises, the run ends there with that exception.)
\<close>

theorem compute_lines_rounds_in_sequence_order:
  assumes "sequence_template_uniq self"
    and "dict_ok s2a"
    and "keys s2a = sequence ` set (input_lines self)"
    and "computed_lines self = cs1 @ c # cs2"
    and "eval_computed_lines se fr (rounding self) cs1 s2a = (Inr (), m)"
    and "se (python_code c) (safe_eval_dict_of m) = Returns v"
  shows "sorted (map sequence (computed_lines self))
       \<and> (\<forall>b\<in>set cs1. sequence b < sequence c) \<and> (\<forall>d\<in>set cs2. sequence c < sequence d)
       \<and> compute_lines se fr self s2a =
           (case fr v (rounding self) of
              Raises exn \<Rightarrow> (Inl (Uncaught exn), setitem (sequence c) v m)
            | Returns r \<Rightarrow>
                (case eval_computed_lines se fr (rounding self) cs2
                        (setitem (sequence c) r m) of
                   (Inl e, s) \<Rightarrow> (Inl e, s)
                 | (Inr u, s) \<Rightarrow> (Inr s, s)))
       \<and> (\<forall>r ds1 d ds2 m'. fr v (rounding self) = Returns r \<longrightarrow>
             cs2 = ds1 @ d # ds2 \<longrightarrow>
             eval_computed_lines se fr (rounding self) ds1
               (setitem (sequence c) r m) = (Inr (), m') \<longrightarrow>
             map_of (safe_eval_dict_of m') (line_name (sequence c)) = Some r)"
proof (intro conjI allI impI)
  show "sorted (map sequence (computed_lines self))"
    by (rule sorted_computed_lines)
  from computed_lines_split [OF assms(1,4)]
  show "\<forall>b\<in>set cs1. sequence b < sequence c" "\<forall>d\<in>set cs2. sequence c < sequence d"
    by simp_all
  show "compute_lines se fr self s2a =
           (case fr v (rounding self) of
              Raises exn \<Rightarrow> (Inl (Uncaught exn), setitem (sequence c) v m)
            | Returns r \<Rightarrow>
                (case eval_computed_lines se fr (rounding self) cs2
                        (setitem (sequence c) r m) of
                   (Inl e, s) \<Rightarrow> (Inl e, s)
                 | (Inr u, s) \<Rightarrow> (Inr s, s)))"
    by (rule compute_lines_at_Returns [OF assms(1,3-6)])
next
  fix r ds1 d ds2 m'
  let ?m = "setitem (sequence c) r m"
  assume split: "cs2 = ds1 @ d # ds2"
    and run: "eval_computed_lines se fr (rounding self) ds1 ?m = (Inr (), m')"
  from assms(2,5) have "dict_ok m" by (rule eval_computed_lines_dict_ok [rotated])
  then have "dict_ok ?m" by (rule dict_ok_setitem)
  with run have ok: "dict_ok m'" by (rule eval_computed_lines_dict_ok)
  from computed_lines_split [OF assms(1,4)] split
  have "sequence c \<notin> sequence ` set ds1" by auto
  with run have "map_of m' (sequence c) = map_of ?m (sequence c)"
    by (rule eval_computed_lines_frame)
  then have "map_of m' (sequence c) = Some r"
    by (simp add: map_of_setitem)
  with ok show "map_of (safe_eval_dict_of m') (line_name (sequence c)) = Some r"
    by (simp add: map_of_safe_eval_dict_of)
qed

theorem compute_lines_rounds_in_sequence_order_witness:
  "compute_lines formula_eval round_to_increment
      \<lparr>rounding = 1 / 100,
       line_rows = [computed_line 3 ''L2*3'', computed_line 2 ''L1/3'', input_line 1]\<rparr>
      [(1, 1)]
     = (Inr [(1, 1), (2, 33 / 100), (3, 99 / 100)], [(1, 1), (2, 33 / 100), (3, 99 / 100)])
   \<and> formula_eval (Some ''L1/3'') (safe_eval_dict_of [(1, 1)]) = Returns (1 / 3)
   \<and> round_to_increment (1 / 3) (1 / 100) = Returns (33 / 100)
   \<and> map_of (safe_eval_dict_of [(1, 1), (2, 33 / 100 :: rat)]) ''L2'' = Some (33 / 100)
   \<and> map sequence (computed_lines
        \<lparr>rounding = 1 / 100 :: rat,
         line_rows = [computed_line 3 ''L2*3'', computed_line 2 ''L1/3'', input_line 1]\<rparr>)
       = [2, 3]"
proof -
  let ?t = "\<lparr>rounding = 1 / 100 :: rat,
       line_rows = [computed_line 3 ''L2*3'', computed_line 2 ''L1/3'', input_line 1]\<rparr>"
  have u: "sequence_template_uniq ?t"
    by (simp add: sequence_template_uniq_def input_line_def computed_line_def)
  have ok: "dict_ok [(1 :: int, 1 :: rat)]"
    by (simp add: dict_ok_def)
  have k: "keys [(1, 1 :: rat)] = sequence ` set (input_lines ?t)"
    by (simp add: keys_def input_lines_def line_ids_def input_line_def computed_line_def)
  have cs: "computed_lines ?t = [] @ computed_line 2 ''L1/3'' # [computed_line 3 ''L2*3'']"
    by (simp add: computed_lines_def line_ids_def input_line_def computed_line_def)
  have run: "eval_computed_lines formula_eval round_to_increment (rounding ?t) [] [(1, 1)]
      = (Inr (), [(1, 1)])"
    by simp
  have v: "formula_eval (python_code (computed_line 2 ''L1/3'')) (safe_eval_dict_of [(1, 1)])
      = Returns (1 / 3)"
    by (simp add: run_simps)
  have r: "round_to_increment (1 / 3) (rounding ?t) = Returns (33 / 100)"
    by (simp add: round_to_increment_def round_def floor_eq_iff)
  have st: "setitem (sequence (computed_line 2 ''L1/3'')) (33 / 100 :: rat) [(1, 1)]
      = [(1, 1), (2, 33 / 100)]"
    by (simp add: setitem_def computed_line_def)
  note th = compute_lines_rounds_in_sequence_order [OF u ok k cs run v]
  from th have "compute_lines formula_eval round_to_increment ?t [(1, 1)] =
      (case round_to_increment (1 / 3) (rounding ?t) of
         Raises exn \<Rightarrow>
           (Inl (Uncaught exn), setitem (sequence (computed_line 2 ''L1/3'')) (1 / 3) [(1, 1)])
       | Returns r \<Rightarrow>
           (case eval_computed_lines formula_eval round_to_increment (rounding ?t)
                   [computed_line 3 ''L2*3'']
                   (setitem (sequence (computed_line 2 ''L1/3'')) r [(1, 1)]) of
              (Inl e, s) \<Rightarrow> (Inl e, s)
            | (Inr u, s) \<Rightarrow> (Inr s, s)))"
    by blast
  then have "compute_lines formula_eval round_to_increment ?t [(1, 1)] =
      (case eval_computed_lines formula_eval round_to_increment (rounding ?t)
              [computed_line 3 ''L2*3''] [(1, 1), (2, 33 / 100)] of
         (Inl e, s) \<Rightarrow> (Inl e, s)
       | (Inr u, s) \<Rightarrow> (Inr s, s))"
    by (simp only: r st eval_result.case)
  then have a: "compute_lines formula_eval round_to_increment ?t [(1, 1)]
     = (Inr [(1, 1), (2, 33 / 100), (3, 99 / 100)], [(1, 1), (2, 33 / 100), (3, 99 / 100)])"
    by (simp add: run_simps)
  from th have "\<forall>r ds1 d ds2 m'. round_to_increment (1 / 3) (rounding ?t) = Returns r \<longrightarrow>
      [computed_line 3 ''L2*3''] = ds1 @ d # ds2 \<longrightarrow>
      eval_computed_lines formula_eval round_to_increment (rounding ?t) ds1
        (setitem (sequence (computed_line 2 ''L1/3'')) r [(1, 1)]) = (Inr (), m') \<longrightarrow>
      map_of (safe_eval_dict_of m') (line_name (sequence (computed_line 2 ''L1/3''))) = Some r"
    by blast
  from this [rule_format, of "33 / 100" "[]" "computed_line 3 ''L2*3''" "[]"
      "[(1, 1), (2, 33 / 100)]"] r st
  have "map_of (safe_eval_dict_of [(1, 1), (2, 33 / 100 :: rat)])
          (line_name (sequence (computed_line 2 ''L1/3''))) = Some (33 / 100)"
    by simp
  then have b: "map_of (safe_eval_dict_of [(1, 1), (2, 33 / 100 :: rat)]) ''L2'' = Some (33 / 100)"
    by (simp add: computed_line_def line_name_def string_of_int_def string_of_nat.simps
        digit_char_def)
  from v have c: "formula_eval (Some ''L1/3'') (safe_eval_dict_of [(1, 1)]) = Returns (1 / 3)"
    by (simp add: computed_line_def)
  from cs have d: "map sequence (computed_lines ?t) = [2, 3]"
    by (simp add: computed_line_def)
  from r have e: "round_to_increment (1 / 3) (1 / 100) = Returns (33 / 100)"
    by simp
  from a b c d e show ?thesis by simp
qed

text \<open>
  C7. In a template with distinct sequences, take a run that passes reconciliation and
  has reached the computed line \<open>c\<close> with the dictionary \<open>m\<close>. When the evaluator raises
  \<^verbatim>\<open>ValueError\<close> on the formula of \<open>c\<close>, \<^verbatim>\<open>compute_lines\<close> fails with the formula reference
  error that carries the sequence and the formula text of \<open>c\<close>; when it raises
  \<^verbatim>\<open>SyntaxError\<close>, with the formula syntax error that carries the same two values.
\<close>

theorem compute_lines_formula_errors:
  assumes "sequence_template_uniq self"
    and "keys s2a = sequence ` set (input_lines self)"
    and "computed_lines self = cs1 @ c # cs2"
    and "eval_computed_lines se fr (rounding self) cs1 s2a = (Inr (), m)"
  shows "(se (python_code c) (safe_eval_dict_of m) = Raises ValueError \<longrightarrow>
            fst (compute_lines se fr self s2a) =
              Inl (FormulaReferenceError (sequence c) (python_code c)))
       \<and> (se (python_code c) (safe_eval_dict_of m) = Raises SyntaxError \<longrightarrow>
            fst (compute_lines se fr self s2a) =
              Inl (FormulaSyntaxError (sequence c) (python_code c)))"
  by (auto simp: compute_lines_at_Raises [OF assms])

theorem compute_lines_formula_errors_witness:
  "fst (compute_lines formula_eval round_to_increment
      \<lparr>rounding = 1 / 100,
       line_rows = [input_line 1, computed_line 2 ''L1/3'', computed_line 3 ''L2*3 + L9'']\<rparr>
      [(1, 1)])
     = Inl (FormulaReferenceError 3 (Some ''L2*3 + L9''))
   \<and> fst (compute_lines formula_eval round_to_increment
      \<lparr>rounding = 1 / 100,
       line_rows = [input_line 1, computed_line 2 ''L1+'']\<rparr>
      [(1, 1)])
     = Inl (FormulaSyntaxError 2 (Some ''L1+''))"
proof -
  let ?t = "\<lparr>rounding = 1 / 100 :: rat,
       line_rows = [input_line 1, computed_line 2 ''L1/3'', computed_line 3 ''L2*3 + L9'']\<rparr>"
  let ?t' = "\<lparr>rounding = 1 / 100 :: rat,
       line_rows = [input_line 1, computed_line 2 ''L1+'']\<rparr>"
  have u: "sequence_template_uniq ?t" "sequence_template_uniq ?t'"
    by (simp_all add: sequence_template_uniq_def input_line_def computed_line_def)
  have k: "keys [(1, 1 :: rat)] = sequence ` set (input_lines ?t)"
    "keys [(1, 1 :: rat)] = sequence ` set (input_lines ?t')"
    by (simp_all add: keys_def input_lines_def line_ids_def input_line_def computed_line_def)
  have cs: "computed_lines ?t = [computed_line 2 ''L1/3''] @ computed_line 3 ''L2*3 + L9'' # []"
    by (simp add: computed_lines_def line_ids_def input_line_def computed_line_def)
  have cs': "computed_lines ?t' = [] @ computed_line 2 ''L1+'' # []"
    by (simp add: computed_lines_def line_ids_def input_line_def computed_line_def)
  have run: "eval_computed_lines formula_eval round_to_increment (rounding ?t)
      [computed_line 2 ''L1/3''] [(1, 1)] = (Inr (), [(1, 1), (2, 33 / 100)])"
    by (simp add: run_simps)
  have run': "eval_computed_lines formula_eval round_to_increment (rounding ?t') [] [(1, 1)]
      = (Inr (), [(1, 1)])"
    by simp
  have e: "formula_eval (python_code (computed_line 3 ''L2*3 + L9''))
      (safe_eval_dict_of [(1, 1), (2, 33 / 100)]) = Raises ValueError"
    by (simp add: run_simps)
  have e': "formula_eval (python_code (computed_line 2 ''L1+'')) (safe_eval_dict_of [(1, 1)])
      = Raises SyntaxError"
    by (simp add: run_simps)
  from compute_lines_formula_errors [OF u(1) k(1) cs run] e
  have a: "fst (compute_lines formula_eval round_to_increment ?t [(1, 1)])
      = Inl (FormulaReferenceError 3 (Some ''L2*3 + L9''))"
    by (simp add: computed_line_def)
  from compute_lines_formula_errors [OF u(2) k(2) cs' run'] e'
  have b: "fst (compute_lines formula_eval round_to_increment ?t' [(1, 1)])
      = Inl (FormulaSyntaxError 2 (Some ''L1+''))"
    by (simp add: computed_line_def)
  from a b show ?thesis by simp
qed

text \<open>
  C8. \<^verbatim>\<open>eval_computed_line\<close> has handlers for \<^verbatim>\<open>ValueError\<close> and \<^verbatim>\<open>SyntaxError\<close> only. In a
  template with distinct sequences, take a run that passes reconciliation and has reached
  the computed line \<open>c\<close>. When the evaluator raises any other exception on the formula of
  \<open>c\<close>, as it does for a division by zero, \<^verbatim>\<open>compute_lines\<close> ends with that exception
  itself, which is none of the errors of the engine.
\<close>

theorem compute_lines_uncaught_exception:
  assumes "sequence_template_uniq self"
    and "keys s2a = sequence ` set (input_lines self)"
    and "computed_lines self = cs1 @ c # cs2"
    and "eval_computed_lines se fr (rounding self) cs1 s2a = (Inr (), m)"
    and "se (python_code c) (safe_eval_dict_of m) = Raises exn"
    and "exn \<noteq> ValueError" and "exn \<noteq> SyntaxError"
  shows "fst (compute_lines se fr self s2a) = Inl (Uncaught exn)
       \<and> Uncaught exn \<noteq> MissingInputLine \<and> Uncaught exn \<noteq> ExtraneousInputLine
       \<and> (\<forall>q f. Uncaught exn \<noteq> FormulaReferenceError q f \<and> Uncaught exn \<noteq> FormulaSyntaxError q f)
       \<and> (\<forall>q. Uncaught exn \<noteq> MissingFormula q)"
  using assms(6,7)
  by (cases exn) (simp_all add: compute_lines_at_Raises [OF assms(1-5)])

theorem compute_lines_uncaught_exception_witness:
  "formula_eval (Some ''L1/0'') (safe_eval_dict_of [(1, 1)]) = Raises ZeroDivisionError
   \<and> fst (compute_lines formula_eval round_to_increment
      \<lparr>rounding = 1 / 100, line_rows = [input_line 1, computed_line 2 ''L1/0'']\<rparr>
      [(1, 1)])
     = Inl (Uncaught ZeroDivisionError)"
proof -
  let ?t = "\<lparr>rounding = 1 / 100 :: rat,
       line_rows = [input_line 1, computed_line 2 ''L1/0'']\<rparr>"
  have u: "sequence_template_uniq ?t"
    by (simp add: sequence_template_uniq_def input_line_def computed_line_def)
  have k: "keys [(1, 1 :: rat)] = sequence ` set (input_lines ?t)"
    by (simp add: keys_def input_lines_def line_ids_def input_line_def computed_line_def)
  have cs: "computed_lines ?t = [] @ computed_line 2 ''L1/0'' # []"
    by (simp add: computed_lines_def line_ids_def input_line_def computed_line_def)
  have run: "eval_computed_lines formula_eval round_to_increment (rounding ?t) [] [(1, 1)]
      = (Inr (), [(1, 1)])"
    by simp
  have e: "formula_eval (python_code (computed_line 2 ''L1/0'')) (safe_eval_dict_of [(1, 1)])
      = Raises ZeroDivisionError"
    by (simp add: run_simps)
  from compute_lines_uncaught_exception [OF u k cs run e] e show ?thesis
    by (simp add: computed_line_def)
qed

section \<open>What a failing run leaves behind, and which names a formula sees\<close>

text \<open>
  C1, as the claim states it, does not hold: \<^verbatim>\<open>compute_lines\<close> stores into the
  dictionary it is given. In the run below the second line is computed and rounded, the
  third line's formula names a line that does not exist, and the caller's dictionary
  holds the amount of line 2 after the failure.
\<close>

theorem compute_lines_failure_mutates_counterexample:
  "compute_lines formula_eval round_to_increment
      \<lparr>rounding = 1 / 100,
       line_rows = [input_line 1, computed_line 2 ''L1/3'', computed_line 3 ''L2*3 + L9'']\<rparr>
      [(1, 1)]
     = (Inl (FormulaReferenceError 3 (Some ''L2*3 + L9'')), [(1, 1), (2, 33 / 100)])
   \<and> [(1, 1), (2, 33 / 100)] \<noteq> [(1 :: int, 1 :: rat)]"
  by (simp add: run_simps)

lemma dictionary_changed:
  assumes "sequence_template_uniq self"
    and "keys s2a = sequence ` set (input_lines self)"
    and "c \<in> set (computed_lines self)"
    and "sequence c \<in> keys s"
  shows "s \<noteq> s2a"
proof
  assume "s = s2a"
  with assms(2,4) obtain l where "l \<in> set (input_lines self)" "sequence l = sequence c"
    by auto
  with input_computed_disjoint [OF assms(1) _ assms(3)] show False by blast
qed

lemma formula_failure_state:
  assumes "computed_lines self = cs1 @ c # cs2"
    and "eval_computed_lines se fr (rounding self) cs1 s2a = (Inr (), s)"
    and "keys s2a = sequence ` set (input_lines self)"
  shows "keys s = keys s2a \<union> sequence ` set cs1
     \<and> (\<forall>k. k \<notin> sequence ` set cs1 \<longrightarrow> map_of s k = map_of s2a k)
     \<and> (sequence_template_uniq self \<longrightarrow> cs1 \<noteq> [] \<longrightarrow> s \<noteq> s2a)
     \<and> (sequence_template_uniq self \<longrightarrow>
          (\<forall>as b bs. cs1 = as @ b # bs \<longrightarrow>
             (\<exists>m' v r. eval_computed_lines se fr (rounding self) as s2a = (Inr (), m')
                \<and> se (python_code b) (safe_eval_dict_of m') = Returns v
                \<and> fr v (rounding self) = Returns r
                \<and> map_of s (sequence b) = Some r)))"
proof (intro conjI allI impI)
  show k: "keys s = keys s2a \<union> sequence ` set cs1"
    using assms(2) by (rule eval_computed_lines_keys)
  show "map_of s k = map_of s2a k" if "k \<notin> sequence ` set cs1" for k
    using assms(2) that by (rule eval_computed_lines_frame)
  show "s \<noteq> s2a" if u: "sequence_template_uniq self" and ne: "cs1 \<noteq> []"
  proof -
    from ne obtain b where b: "b \<in> set cs1" by (cases cs1) auto
    then have "b \<in> set (computed_lines self)" "sequence b \<in> keys s"
      by (simp_all add: assms(1) k)
    with u assms(3) show ?thesis by (rule dictionary_changed)
  qed
  show "\<exists>m' v r. eval_computed_lines se fr (rounding self) as s2a = (Inr (), m')
          \<and> se (python_code b) (safe_eval_dict_of m') = Returns v
          \<and> fr v (rounding self) = Returns r
          \<and> map_of s (sequence b) = Some r"
    if u: "sequence_template_uniq self" and split: "cs1 = as @ b # bs" for as b bs
  proof -
    from distinct_computed_lines [OF u] have "distinct (map sequence (as @ b # bs))"
      by (auto simp: assms(1) split)
    with assms(2) [unfolded split] show ?thesis
      by (rule eval_computed_lines_rounded)
  qed
qed

text \<open>
  C1, amended. A failing run returns no mapping, and \<^verbatim>\<open>compute_lines\<close> works in place on
  the dictionary it is given. Three things can happen to a failing run. (1) Reconciliation
  fails, with a missing or an extraneous input line (or the \<^verbatim>\<open>KeyError\<close> of \<^verbatim>\<open>pop\<close>); then the
  supplied dictionary is unchanged. (2) The formula of a computed line \<open>c\<close> fails; then
  \<^verbatim>\<open>eval_computed_line\<close> leaves the dictionary as it found it, and that dictionary is the
  supplied one after the lines before \<open>c\<close>: its keys are the supplied keys and the sequences
  of these lines, every other key keeps its amount, and in a template with distinct
  sequences it holds for each of these lines the rounding of what its formula evaluated
  to, so it differs from the supplied one as soon as one line precedes \<open>c\<close>. (3) The
  rounding raises at a computed line \<open>c\<close>; then the dictionary is the one after the lines
  before \<open>c\<close> with the value of \<open>c\<close> stored in it, not rounded. A run that succeeds returns
  the caller's dictionary itself, as the loop over the computed lines leaves it.
\<close>

theorem compute_lines_failure_state:
  assumes "compute_lines se fr self s2a = (res, s)"
  shows "(\<forall>r. res = Inr r \<longrightarrow>
            r = s
            \<and> eval_computed_lines se fr (rounding self) (computed_lines self) s2a = (Inr (), s)
            \<and> keys s = keys s2a \<union> sequence ` set (computed_lines self))
       \<and> (\<forall>e. res = Inl e \<longrightarrow>
            ((e = MissingInputLine \<or> e = ExtraneousInputLine \<or> (\<exists>k. e = KeyError k))
              \<and> s = s2a)
          \<or> (e \<noteq> MissingInputLine \<and> e \<noteq> ExtraneousInputLine \<and> (\<forall>k. e \<noteq> KeyError k)
              \<and> keys s2a = sequence ` set (input_lines self)
              \<and> (\<exists>cs1 c cs2 exn. computed_lines self = cs1 @ c # cs2
                   \<and> eval_computed_lines se fr (rounding self) cs1 s2a = (Inr (), s)
                   \<and> se (python_code c) (safe_eval_dict_of s) = Raises exn
                   \<and> eval_computed_line se c s = (Inl e, s)
                   \<and> keys s = keys s2a \<union> sequence ` set cs1
                   \<and> (\<forall>k. k \<notin> sequence ` set cs1 \<longrightarrow> map_of s k = map_of s2a k)
                   \<and> (sequence_template_uniq self \<longrightarrow> cs1 \<noteq> [] \<longrightarrow> s \<noteq> s2a)
                   \<and> (sequence_template_uniq self \<longrightarrow>
                        (\<forall>as b bs. cs1 = as @ b # bs \<longrightarrow>
                          (\<exists>m' v r.
                             eval_computed_lines se fr (rounding self) as s2a = (Inr (), m')
                             \<and> se (python_code b) (safe_eval_dict_of m') = Returns v
                             \<and> fr v (rounding self) = Returns r
                             \<and> map_of s (sequence b) = Some r)))))
          \<or> (keys s2a = sequence ` set (input_lines self)
              \<and> (\<exists>cs1 c cs2 m v exn. computed_lines self = cs1 @ c # cs2
                   \<and> eval_computed_lines se fr (rounding self) cs1 s2a = (Inr (), m)
                   \<and> se (python_code c) (safe_eval_dict_of m) = Returns v
                   \<and> fr v (rounding self) = Raises exn
                   \<and> e = Uncaught exn
                   \<and> s = setitem (sequence c) v m
                   \<and> (sequence_template_uniq self \<longrightarrow> s \<noteq> s2a))))"
proof (intro conjI allI impI)
  fix r assume res: "res = Inr r"
  with assms have "fst (compute_lines se fr self s2a) = Inr r" by simp
  from compute_lines_Inr [OF this] have
    pop: "pop_input_lines (input_lines self) s2a s2a = Inr []" and
    loop: "eval_computed_lines se fr (rounding self) (computed_lines self) s2a = (Inr (), r)"
    by simp_all
  from pop loop have "compute_lines se fr self s2a = (Inr r, r)"
    by (simp add: compute_lines_pass)
  with assms show "r = s" by simp
  with loop show "eval_computed_lines se fr (rounding self) (computed_lines self) s2a = (Inr (), s)"
    by simp
  then show "keys s = keys s2a \<union> sequence ` set (computed_lines self)"
    by (rule eval_computed_lines_keys)
next
  fix e assume res: "res = Inl e"
  let ?A = "(e = MissingInputLine \<or> e = ExtraneousInputLine \<or> (\<exists>k. e = KeyError k)) \<and> s = s2a"
  let ?P = "\<lambda>cs1 c cs2 exn. computed_lines self = cs1 @ c # cs2
     \<and> eval_computed_lines se fr (rounding self) cs1 s2a = (Inr (), s)
     \<and> se (python_code c) (safe_eval_dict_of s) = Raises exn
     \<and> eval_computed_line se c s = (Inl e, s)
     \<and> keys s = keys s2a \<union> sequence ` set cs1
     \<and> (\<forall>k. k \<notin> sequence ` set cs1 \<longrightarrow> map_of s k = map_of s2a k)
     \<and> (sequence_template_uniq self \<longrightarrow> cs1 \<noteq> [] \<longrightarrow> s \<noteq> s2a)
     \<and> (sequence_template_uniq self \<longrightarrow>
          (\<forall>as b bs. cs1 = as @ b # bs \<longrightarrow>
            (\<exists>m' v r.
               eval_computed_lines se fr (rounding self) as s2a = (Inr (), m')
               \<and> se (python_code b) (safe_eval_dict_of m') = Returns v
               \<and> fr v (rounding self) = Returns r
               \<and> map_of s (sequence b) = Some r)))"
  let ?B = "e \<noteq> MissingInputLine \<and> e \<noteq> ExtraneousInputLine \<and> (\<forall>k. e \<noteq> KeyError k)
     \<and> keys s2a = sequence ` set (input_lines self)
     \<and> (\<exists>cs1 c cs2 exn. ?P cs1 c cs2 exn)"
  let ?Q = "\<lambda>cs1 c cs2 m v exn. computed_lines self = cs1 @ c # cs2
     \<and> eval_computed_lines se fr (rounding self) cs1 s2a = (Inr (), m)
     \<and> se (python_code c) (safe_eval_dict_of m) = Returns v
     \<and> fr v (rounding self) = Raises exn
     \<and> e = Uncaught exn
     \<and> s = setitem (sequence c) v m
     \<and> (sequence_template_uniq self \<longrightarrow> s \<noteq> s2a)"
  let ?C = "keys s2a = sequence ` set (input_lines self)
     \<and> (\<exists>cs1 c cs2 m v exn. ?Q cs1 c cs2 m v exn)"
  show "?A \<or> ?B \<or> ?C"
  proof (cases "pop_input_lines (input_lines self) s2a s2a")
    case (Inl e')
    then have "compute_lines se fr self s2a = (Inl e', s2a)"
      by (simp add: compute_lines_def)
    with assms res have "e = e'" "s = s2a" by simp_all
    with pop_input_lines_Inl [OF Inl] have ?A by auto
    then show ?thesis by (rule disjI1)
  next
    case (Inr c')
    show ?thesis
    proof (cases "c' = []")
      case False
      with Inr have "compute_lines se fr self s2a = (Inl ExtraneousInputLine, s2a)"
        by (simp add: compute_lines_def)
      with assms res have ?A by simp
      then show ?thesis by (rule disjI1)
    next
      case True
      let ?loop = "eval_computed_lines se fr (rounding self) (computed_lines self) s2a"
      from True Inr have pop: "pop_input_lines (input_lines self) s2a s2a = Inr []"
        by simp
      then have k: "keys s2a = sequence ` set (input_lines self)"
        by (rule pop_input_lines_pass_keys)
      from pop assms res have fin:
        "(case ?loop of (Inl e, s) \<Rightarrow> (Inl e, s) | (Inr u, s) \<Rightarrow> (Inr s, s)) = (Inl e, s)"
        by (simp add: compute_lines_pass)
      have loop: "?loop = (Inl e, s)"
      proof (cases ?loop)
        case (Pair out s')
        with fin show ?thesis by (cases out) simp_all
      qed
      from eval_computed_lines_Inl [OF loop] show ?thesis
      proof
        assume "\<exists>cs1 c cs2 exn. computed_lines self = cs1 @ c # cs2
          \<and> eval_computed_lines se fr (rounding self) cs1 s2a = (Inr (), s)
          \<and> se (python_code c) (safe_eval_dict_of s) = Raises exn
          \<and> eval_computed_line se c s = (Inl e, s)"
        then obtain cs1 c cs2 exn where h: "computed_lines self = cs1 @ c # cs2"
          "eval_computed_lines se fr (rounding self) cs1 s2a = (Inr (), s)"
          "se (python_code c) (safe_eval_dict_of s) = Raises exn"
          "eval_computed_line se c s = (Inl e, s)"
          by (elim exE conjE)
        note st = formula_failure_state [OF h(1,2) k]
        have "?P cs1 c cs2 exn"
          by (rule conjI [OF h(1) conjI [OF h(2) conjI [OF h(3) conjI [OF h(4) st]]]])
        then have ex: "\<exists>cs1 c cs2 exn. ?P cs1 c cs2 exn"
          by (intro exI)
        from eval_computed_line_Inl [OF h(4)] have
          "e \<noteq> MissingInputLine \<and> e \<noteq> ExtraneousInputLine \<and> (\<forall>k. e \<noteq> KeyError k)"
          by simp
        with k ex have ?B by simp
        then show ?thesis by (intro disjI2 disjI1)
      next
        assume "\<exists>cs1 c cs2 m' v exn. computed_lines self = cs1 @ c # cs2
          \<and> eval_computed_lines se fr (rounding self) cs1 s2a = (Inr (), m')
          \<and> se (python_code c) (safe_eval_dict_of m') = Returns v
          \<and> fr v (rounding self) = Raises exn
          \<and> e = Uncaught exn
          \<and> s = setitem (sequence c) v m'"
        then obtain cs1 c cs2 m v exn where h: "computed_lines self = cs1 @ c # cs2"
          "eval_computed_lines se fr (rounding self) cs1 s2a = (Inr (), m)"
          "se (python_code c) (safe_eval_dict_of m) = Returns v"
          "fr v (rounding self) = Raises exn" "e = Uncaught exn"
          "s = setitem (sequence c) v m"
          by (elim exE conjE)
        have ch: "sequence_template_uniq self \<longrightarrow> s \<noteq> s2a"
        proof
          assume u: "sequence_template_uniq self"
          have "c \<in> set (computed_lines self)" "sequence c \<in> keys s"
            by (simp_all add: h(1,6) keys_setitem)
          with u k show "s \<noteq> s2a" by (rule dictionary_changed)
        qed
        have "?Q cs1 c cs2 m v exn"
          by (rule conjI [OF h(1) conjI [OF h(2) conjI [OF h(3) conjI [OF h(4)
                conjI [OF h(5) conjI [OF h(6) ch]]]]]])
        then have "\<exists>cs1 c cs2 m v exn. ?Q cs1 c cs2 m v exn"
          by (intro exI)
        with k have ?C by simp
        then show ?thesis by (intro disjI2)
      qed
    qed
  qed
qed

theorem compute_lines_failure_state_witness:
  "compute_lines formula_eval round_to_increment
      \<lparr>rounding = 1 / 100,
       line_rows = [input_line 1, computed_line 2 ''L1/3'', computed_line 3 ''L2*3 + L9'']\<rparr>
      [(1, 1)]
     = (Inl (FormulaReferenceError 3 (Some ''L2*3 + L9'')), [(1, 1), (2, 33 / 100)])
   \<and> (\<exists>cs1 c cs2.
        computed_lines
          \<lparr>rounding = 1 / 100 :: rat,
           line_rows = [input_line 1, computed_line 2 ''L1/3'', computed_line 3 ''L2*3 + L9'']\<rparr>
          = cs1 @ c # cs2
        \<and> eval_computed_lines formula_eval round_to_increment (1 / 100) cs1 [(1, 1)]
            = (Inr (), [(1, 1), (2, 33 / 100)])
        \<and> eval_computed_line formula_eval c [(1, 1), (2, 33 / 100)]
            = (Inl (FormulaReferenceError 3 (Some ''L2*3 + L9'')), [(1, 1), (2, 33 / 100)]))
   \<and> compute_lines formula_eval round_to_increment
      \<lparr>rounding = 1 / 100,
       line_rows = [input_line 1, computed_line 2 ''L1/3'', computed_line 3 ''L2*3 + L9'']\<rparr>
      [(4, 1)]
     = (Inl MissingInputLine, [(4, 1)])
   \<and> compute_lines formula_eval round_to_increment
      \<lparr>rounding = 0, line_rows = [input_line 1, computed_line 2 ''L1/3'']\<rparr>
      [(1, 1)]
     = (Inl (Uncaught (OtherException ''AssertionError'')), [(1, 1), (2, 1 / 3)])"
proof -
  let ?t = "\<lparr>rounding = 1 / 100 :: rat,
       line_rows = [input_line 1, computed_line 2 ''L1/3'', computed_line 3 ''L2*3 + L9'']\<rparr>"
  let ?z = "\<lparr>rounding = 0 :: rat, line_rows = [input_line 1, computed_line 2 ''L1/3'']\<rparr>"
  let ?e = "FormulaReferenceError 3 (Some ''L2*3 + L9'')"
  let ?s = "[(1 :: int, 1 :: rat), (2, 33 / 100)]"
  have run: "compute_lines formula_eval round_to_increment ?t [(1, 1)] = (Inl ?e, ?s)"
    by (simp add: run_simps)
  note th = compute_lines_failure_state [OF run, THEN conjunct2, rule_format, OF refl]
  have "\<exists>cs1 c cs2. computed_lines ?t = cs1 @ c # cs2
          \<and> eval_computed_lines formula_eval round_to_increment (rounding ?t) cs1 [(1, 1)]
              = (Inr (), ?s)
          \<and> eval_computed_line formula_eval c ?s = (Inl ?e, ?s)"
    using th
    apply (elim disjE)
      apply simp
     apply (elim conjE exE)
     apply (intro exI conjI)
       apply assumption+
    apply (elim conjE exE)
    apply simp
    done
  then have a: "\<exists>cs1 c cs2. computed_lines ?t = cs1 @ c # cs2
          \<and> eval_computed_lines formula_eval round_to_increment (1 / 100) cs1 [(1, 1)]
              = (Inr (), ?s)
          \<and> eval_computed_line formula_eval c ?s = (Inl ?e, ?s)"
    by simp
  have "fst (compute_lines formula_eval round_to_increment ?t [(4, 1)]) = Inl MissingInputLine"
    by (simp add: run_simps)
  then obtain s where miss:
    "compute_lines formula_eval round_to_increment ?t [(4, 1)] = (Inl MissingInputLine, s)"
    by (cases "compute_lines formula_eval round_to_increment ?t [(4, 1)]") simp
  from compute_lines_failure_state [OF miss, THEN conjunct2, rule_format, OF refl]
  have "s = [(4, 1)]"
    by simp
  with miss have b:
    "compute_lines formula_eval round_to_increment ?t [(4, 1)] = (Inl MissingInputLine, [(4, 1)])"
    by simp
  have c: "compute_lines formula_eval round_to_increment ?z [(1, 1)]
     = (Inl (Uncaught (OtherException ''AssertionError'')), [(1, 1), (2, 1 / 3)])"
    by (simp add: run_simps)
  show ?thesis
    by (intro conjI) (rule run, rule a, rule b, rule c)
qed

text \<open>
  C2, as the claim states it, does not hold: the names are built from the whole
  dictionary, which holds every input line from the start, whatever its sequence. Here
  the computed line 1 names the input line 2 and the run succeeds.
\<close>

theorem higher_input_line_referenced_counterexample:
  "safe_eval_dict_of [(2, 5 :: rat)] = [(''L2'', 5)]
   \<and> compute_lines formula_eval round_to_increment
      \<lparr>rounding = 1 / 100, line_rows = [computed_line 1 ''L2'', input_line 2]\<rparr>
      [(2, 5)]
     = (Inr [(2, 5), (1, 5)], [(2, 5), (1, 5)])"
  by (simp add: run_simps)

text \<open>
  C2, amended. In a template with distinct sequences, take a run that passes
  reconciliation and has reached the computed line \<open>c\<close> with the dictionary \<open>m\<close>. The names
  bound for the formula of \<open>c\<close> are exactly the names of the sequences of all input lines,
  lower or higher than that of \<open>c\<close>, and of the computed lines with a sequence strictly below
  that of \<open>c\<close>. The name of every input line is bound to the amount supplied for it; the
  name of a computed line whose sequence is that of \<open>c\<close> or above is not bound. When the
  evaluator raises \<^verbatim>\<open>ValueError\<close>, as it does for a name that is not bound, the run fails
  with the formula reference error of \<open>c\<close> and the dictionary stays \<open>m\<close>.
\<close>

theorem formula_context_names:
  assumes "sequence_template_uniq self"
    and "dict_ok s2a"
    and "keys s2a = sequence ` set (input_lines self)"
    and "computed_lines self = cs1 @ c # cs2"
    and "eval_computed_lines se fr (rounding self) cs1 s2a = (Inr (), m)"
  shows "keys (safe_eval_dict_of m) =
           line_name ` (sequence ` set (input_lines self)
             \<union> {q \<in> sequence ` set (computed_lines self). q < sequence c})
       \<and> (\<forall>l\<in>set (input_lines self).
             \<exists>v. map_of s2a (sequence l) = Some v
               \<and> map_of (safe_eval_dict_of m) (line_name (sequence l)) = Some v)
       \<and> (\<forall>d\<in>set (computed_lines self). sequence c \<le> sequence d \<longrightarrow>
             map_of (safe_eval_dict_of m) (line_name (sequence d)) = None)
       \<and> (se (python_code c) (safe_eval_dict_of m) = Raises ValueError \<longrightarrow>
             compute_lines se fr self s2a =
               (Inl (FormulaReferenceError (sequence c) (python_code c)), m))"
proof -
  note split = computed_lines_split [OF assms(1,4)]
  have cs1: "sequence ` set cs1 = {q \<in> sequence ` set (computed_lines self). q < sequence c}"
    using split unfolding assms(4) by auto
  from assms(5) have "keys m = keys s2a \<union> sequence ` set cs1"
    by (rule eval_computed_lines_keys)
  with cs1 assms(3) have km: "keys m = sequence ` set (input_lines self)
      \<union> {q \<in> sequence ` set (computed_lines self). q < sequence c}"
    by simp
  have names: "keys (safe_eval_dict_of m) =
           line_name ` (sequence ` set (input_lines self)
             \<union> {q \<in> sequence ` set (computed_lines self). q < sequence c})"
    by (simp only: keys_safe_eval_dict_of km)
  from assms(2,5) have ok: "dict_ok m"
    by (rule eval_computed_lines_dict_ok [rotated])
  have bound: "\<exists>v. map_of s2a (sequence l) = Some v
               \<and> map_of (safe_eval_dict_of m) (line_name (sequence l)) = Some v"
    if l: "l \<in> set (input_lines self)" for l
  proof -
    from l assms(3) have "sequence l \<in> keys s2a" by simp
    then obtain v where v: "map_of s2a (sequence l) = Some v"
      using contains_iff [of "sequence l" s2a] by (auto simp: contains_def)
    have "sequence l \<notin> sequence ` set cs1"
    proof
      assume "sequence l \<in> sequence ` set cs1"
      then obtain b where "b \<in> set (computed_lines self)" "sequence l = sequence b"
        unfolding assms(4) by auto
      with input_computed_disjoint [OF assms(1) l] show False by blast
    qed
    with assms(5) have "map_of m (sequence l) = map_of s2a (sequence l)"
      by (rule eval_computed_lines_frame)
    with v ok show ?thesis by (simp add: map_of_safe_eval_dict_of)
  qed
  have unbound: "map_of (safe_eval_dict_of m) (line_name (sequence d)) = None"
    if d: "d \<in> set (computed_lines self)" "sequence c \<le> sequence d" for d
  proof -
    have "sequence d \<notin> sequence ` set (input_lines self)"
    proof
      assume "sequence d \<in> sequence ` set (input_lines self)"
      then obtain l where "l \<in> set (input_lines self)" "sequence l = sequence d"
        by auto
      with input_computed_disjoint [OF assms(1) _ d(1)] show False by blast
    qed
    moreover have "sequence d \<notin> {q \<in> sequence ` set (computed_lines self). q < sequence c}"
      using d(2) by auto
    ultimately have "sequence d \<notin> keys m" by (simp add: km)
    then have "line_name (sequence d) \<notin> keys (safe_eval_dict_of m)"
      by (auto simp: keys_safe_eval_dict_of line_name_eq_iff)
    then show ?thesis by (simp add: keys_def map_of_eq_None_iff)
  qed
  have err: "compute_lines se fr self s2a =
               (Inl (FormulaReferenceError (sequence c) (python_code c)), m)"
    if "se (python_code c) (safe_eval_dict_of m) = Raises ValueError"
    by (simp add: compute_lines_at_Raises [OF assms(1,3,4,5) that])
  from names bound unbound err show ?thesis by blast
qed

theorem formula_context_names_witness:
  "keys (safe_eval_dict_of [(1, 10 :: rat), (3, 5)]) = {''L1'', ''L3''}
   \<and> map_of (safe_eval_dict_of [(1, 10 :: rat), (3, 5)]) ''L3'' = Some 5
   \<and> map_of (safe_eval_dict_of [(1, 10 :: rat), (3, 5)]) ''L4'' = None
   \<and> compute_lines formula_eval round_to_increment
        \<lparr>rounding = 1 / 100,
         line_rows = [input_line 1, computed_line 2 ''L3 + L4'', input_line 3,
                      computed_line 4 ''L1'']\<rparr>
        [(1, 10), (3, 5)]
       = (Inl (FormulaReferenceError 2 (Some ''L3 + L4'')), [(1, 10), (3, 5)])"
proof -
  let ?t = "\<lparr>rounding = 1 / 100 :: rat,
         line_rows = [input_line 1, computed_line 2 ''L3 + L4'', input_line 3,
                      computed_line 4 ''L1'']\<rparr>"
  have u: "sequence_template_uniq ?t"
    by (simp add: sequence_template_uniq_def input_line_def computed_line_def)
  have ok: "dict_ok [(1 :: int, 10 :: rat), (3, 5)]"
    by (simp add: dict_ok_def)
  have ins: "input_lines ?t = [input_line 1, input_line 3]"
    by (simp add: input_lines_def line_ids_def input_line_def computed_line_def)
  have k: "keys [(1, 10 :: rat), (3, 5)] = sequence ` set (input_lines ?t)"
    unfolding ins by (simp add: keys_def input_line_def)
  have cs: "computed_lines ?t = [] @ computed_line 2 ''L3 + L4'' # [computed_line 4 ''L1'']"
    by (simp add: computed_lines_def line_ids_def input_line_def computed_line_def)
  have run: "eval_computed_lines formula_eval round_to_increment (rounding ?t) []
      [(1, 10), (3, 5)] = (Inr (), [(1, 10), (3, 5)])"
    by simp
  have e: "formula_eval (python_code (computed_line 2 ''L3 + L4''))
      (safe_eval_dict_of [(1, 10), (3, 5)]) = Raises ValueError"
    by (simp add: run_simps)
  have n: "line_name 1 = ''L1''" "line_name 2 = ''L2''" "line_name 3 = ''L3''" "line_name 4 = ''L4''"
    by (simp_all add: line_name_def string_of_int_def string_of_nat.simps digit_char_def)
  note th = formula_context_names [OF u ok k cs run, unfolded ins]
  from th have ka: "keys (safe_eval_dict_of [(1, 10 :: rat), (3, 5)]) =
      line_name ` (sequence ` set [input_line 1, input_line 3]
        \<union> {q \<in> sequence ` set (computed_lines ?t). q < sequence (computed_line 2 ''L3 + L4'')})"
    by blast
  have none: "{q \<in> sequence ` set (computed_lines ?t).
      q < sequence (computed_line 2 ''L3 + L4'')} = {}"
    unfolding cs by (auto simp: computed_line_def)
  have img: "line_name ` (sequence ` set [input_line 1, input_line 3] \<union> {}) = {''L1'', ''L3''}"
    by (simp add: input_line_def n)
  have a: "keys (safe_eval_dict_of [(1, 10 :: rat), (3, 5)]) = {''L1'', ''L3''}"
    by (simp only: ka none img)
  from th have "\<forall>l\<in>set [input_line 1, input_line 3].
      \<exists>v. map_of [(1, 10 :: rat), (3, 5)] (sequence l) = Some v
        \<and> map_of (safe_eval_dict_of [(1, 10), (3, 5)]) (line_name (sequence l)) = Some v"
    by blast
  then have b: "map_of (safe_eval_dict_of [(1, 10 :: rat), (3, 5)]) ''L3'' = Some 5"
    by (simp add: input_line_def n)
  from th have "\<forall>d\<in>set (computed_lines ?t).
      sequence (computed_line 2 ''L3 + L4'') \<le> sequence d \<longrightarrow>
      map_of (safe_eval_dict_of [(1, 10 :: rat), (3, 5)]) (line_name (sequence d)) = None"
    by blast
  then have c: "map_of (safe_eval_dict_of [(1, 10 :: rat), (3, 5)]) ''L4'' = None"
    unfolding cs by (simp add: computed_line_def n)
  from th e have "compute_lines formula_eval round_to_increment ?t [(1, 10), (3, 5)] =
      (Inl (FormulaReferenceError (sequence (computed_line 2 ''L3 + L4''))
              (python_code (computed_line 2 ''L3 + L4''))), [(1, 10), (3, 5)])"
    by blast
  then have d: "compute_lines formula_eval round_to_increment ?t [(1, 10), (3, 5)]
       = (Inl (FormulaReferenceError 2 (Some ''L3 + L4'')), [(1, 10), (3, 5)])"
    by (simp add: computed_line_def)
  from a b c d show ?thesis by simp
qed

section \<open>The constraint on computed lines without formula\<close>

lemma check_python_code_all:
  "(check_python_code lines = Inr ()) =
     (\<forall>l\<in>set lines. \<not> (type l = Computed \<and> falsy (python_code l)))"
  by (induction lines) auto

lemma check_python_code_first:
  "check_python_code lines = Inl e \<Longrightarrow>
     \<exists>pre l post. lines = pre @ l # post
       \<and> (\<forall>x\<in>set pre. \<not> (type x = Computed \<and> falsy (python_code x)))
       \<and> type l = Computed \<and> falsy (python_code l)
       \<and> e = MissingFormula (sequence l)"
proof (induction lines)
  case Nil
  then show ?case by simp
next
  case (Cons x xs)
  show ?case
  proof (cases "type x = Computed \<and> falsy (python_code x)")
    case True
    with Cons.prems have "x # xs = [] @ x # xs
       \<and> (\<forall>y\<in>set []. \<not> (type y = Computed \<and> falsy (python_code y)))
       \<and> type x = Computed \<and> falsy (python_code x)
       \<and> e = MissingFormula (sequence x)"
      by auto
    then show ?thesis by (intro exI)
  next
    case False
    with Cons.prems have "check_python_code xs = Inl e" by simp
    from Cons.IH [OF this] obtain pre l post where h: "xs = pre @ l # post"
      "\<forall>y\<in>set pre. \<not> (type y = Computed \<and> falsy (python_code y))"
      "type l = Computed \<and> falsy (python_code l)" "e = MissingFormula (sequence l)"
      by (elim exE conjE) blast
    with False have "x # xs = (x # pre) @ l # post
       \<and> (\<forall>y\<in>set (x # pre). \<not> (type y = Computed \<and> falsy (python_code y)))
       \<and> type l = Computed \<and> falsy (python_code l)
       \<and> e = MissingFormula (sequence l)"
      by simp
    then show ?thesis by (intro exI)
  qed
qed

lemma falsy_iff: "falsy code = (code = None \<or> code = Some [])"
  by (cases code) (simp_all add: falsy_def)

text \<open>
  C10. Saving lines runs \<^verbatim>\<open>check_python_code\<close> on the records being saved, one after the
  other. The save passes exactly when none of them is a computed line whose formula text
  is absent or empty. Otherwise it is rejected with the validation error that names the
  sequence of the first such line among the records. The check reads the lines only, so
  no run is involved, and records that are all input lines pass whatever their formula
  texts are; in particular, saving one line is rejected exactly when it is computed and
  has no formula text.
\<close>

theorem check_python_code_missing_formula:
  "(check_python_code lines = Inr ()) =
     (\<forall>l\<in>set lines.
        \<not> (type l = Computed \<and> (python_code l = None \<or> python_code l = Some [])))
   \<and> (\<forall>e. check_python_code lines = Inl e \<longrightarrow>
        (\<exists>pre l post. lines = pre @ l # post
           \<and> (\<forall>x\<in>set pre.
                \<not> (type x = Computed \<and> (python_code x = None \<or> python_code x = Some [])))
           \<and> type l = Computed \<and> (python_code l = None \<or> python_code l = Some [])
           \<and> e = MissingFormula (sequence l)))
   \<and> ((\<forall>l\<in>set lines. type l = Input) \<longrightarrow> check_python_code lines = Inr ())
   \<and> (check_python_code [line] = Inl (MissingFormula (sequence line))) =
        (type line = Computed \<and> (python_code line = None \<or> python_code line = Some []))
   \<and> (check_python_code [line] = Inr ()) =
        (\<not> (type line = Computed \<and> (python_code line = None \<or> python_code line = Some [])))"
proof (intro conjI allI impI)
  show "(check_python_code lines = Inr ()) =
     (\<forall>l\<in>set lines.
        \<not> (type l = Computed \<and> (python_code l = None \<or> python_code l = Some [])))"
    by (simp only: check_python_code_all falsy_iff)
  show "\<exists>pre l post. lines = pre @ l # post
           \<and> (\<forall>x\<in>set pre.
                \<not> (type x = Computed \<and> (python_code x = None \<or> python_code x = Some [])))
           \<and> type l = Computed \<and> (python_code l = None \<or> python_code l = Some [])
           \<and> e = MissingFormula (sequence l)"
    if "check_python_code lines = Inl e" for e
    using check_python_code_first [OF that] by (simp only: falsy_iff)
  show "check_python_code lines = Inr ()" if "\<forall>l\<in>set lines. type l = Input"
    using that by (simp add: check_python_code_all)
  show "(check_python_code [line] = Inl (MissingFormula (sequence line))) =
        (type line = Computed \<and> (python_code line = None \<or> python_code line = Some []))"
    by (simp add: falsy_iff)
  show "(check_python_code [line] = Inr ()) =
        (\<not> (type line = Computed \<and> (python_code line = None \<or> python_code line = Some [])))"
    by (simp add: falsy_iff)
qed

theorem check_python_code_missing_formula_witness:
  "check_python_code [input_line 1, computed_line 2 [], computed_line 3 ''L1'']
     = Inl (MissingFormula 2)
   \<and> check_python_code [input_line 1, input_line 2, computed_line 3 ''L1 * 2''] = Inr ()
   \<and> check_python_code
        [\<lparr>line_id = 7, sequence = 3, type = Computed, python_code = None, move_line_type = Dr\<rparr>]
       = Inl (MissingFormula 3)
   \<and> check_python_code
        [\<lparr>line_id = 8, sequence = 4, type = Input, python_code = Some [], move_line_type = Cr\<rparr>]
       = Inr ()"
proof -
  let ?bad = "[input_line 1, computed_line 2 [], computed_line 3 ''L1'']"
  let ?good = "[input_line 1, input_line 2, computed_line 3 ''L1 * 2'']"
  let ?c = "\<lparr>line_id = 7, sequence = 3, type = Computed, python_code = None, move_line_type = Dr\<rparr>"
  let ?i = "\<lparr>line_id = 8, sequence = 4, type = Input, python_code = Some [], move_line_type = Cr\<rparr>"
  note th = check_python_code_missing_formula
  from th [of ?good] have good: "check_python_code ?good = Inr ()"
    by (simp add: input_line_def computed_line_def)
  from th [of ?bad] have nb: "check_python_code ?bad \<noteq> Inr ()"
    by (simp add: input_line_def computed_line_def)
  then obtain e where e: "check_python_code ?bad = Inl e"
    by (cases "check_python_code ?bad") auto
  with th [of ?bad] obtain pre l post where h: "?bad = pre @ l # post"
    "\<forall>x\<in>set pre. \<not> (type x = Computed \<and> (python_code x = None \<or> python_code x = Some []))"
    "type l = Computed \<and> (python_code l = None \<or> python_code l = Some [])"
    "e = MissingFormula (sequence l)"
    by blast
  have "l = computed_line 2 []"
  proof (cases pre)
    case Nil
    with h(1,3) show ?thesis by (auto simp: input_line_def)
  next
    case (Cons a pre')
    note p = Cons
    show ?thesis
    proof (cases pre')
      case Nil
      with p h(1) show ?thesis by simp
    next
      case (Cons a' pre'')
      with p h(1) have "computed_line 2 [] \<in> set pre" by (cases pre'') auto
      with h(2) show ?thesis by (auto simp: computed_line_def)
    qed
  qed
  with h(4) e have bad: "check_python_code ?bad = Inl (MissingFormula 2)"
    by (simp add: computed_line_def)
  from th [of _ ?c] have c: "check_python_code [?c] = Inl (MissingFormula 3)"
    by simp
  from th [of _ ?i] have i: "check_python_code [?i] = Inr ()"
    by simp
  show ?thesis
    by (intro conjI) (rule bad, rule good, rule c, rule i)
qed

end
